theory Spec2Isabelle
  imports Main "HOL-Library.Sublist"
begin

section \<open>Python values\<close>

text \<open>
  The generators of \<^verbatim>\<open>DashCraft.py\<close> consume the object that the YAML loader returns.
  It is modelled as a value of \<open>pyval\<close>: \<open>None\<close>, booleans, integers, strings, lists and
  dictionaries. Strings are byte strings (\<open>char list\<close>); dictionaries are association lists
  with string keys, looked up with \<open>map_of\<close>. Floats, timestamps and dictionary keys that are
  not strings are not represented.
\<close>

datatype pyval =
    PNone
  | PBool bool
  | PInt int
  | PStr string
  | PList "pyval list"
  | PDict "(string \<times> pyval) list"

text \<open>The exceptions that the modelled statements can raise.\<close>

datatype py_error =
    KeyError
  | AttributeError
  | TypeError
  | ValueError
  | FileNotFoundError
  | NotADirectoryError
  | IsADirectoryError
  | FileExistsError

text \<open>Truth value of an object, as tested by \<^verbatim>\<open>if not config\<close>.\<close>

fun truthy :: "pyval \<Rightarrow> bool" where
  "truthy PNone = False"
| "truthy (PBool b) = b"
| "truthy (PInt i) = (i \<noteq> 0)"
| "truthy (PStr s) = (s \<noteq> [])"
| "truthy (PList xs) = (xs \<noteq> [])"
| "truthy (PDict m) = (m \<noteq> [])"

text \<open>\<^verbatim>\<open>obj[key]\<close> with a string key: only a dictionary can answer.\<close>

fun py_getitem :: "pyval \<Rightarrow> string \<Rightarrow> py_error + pyval" where
  "py_getitem (PDict m) k = (case map_of m k of None \<Rightarrow> Inl KeyError | Some v \<Rightarrow> Inr v)"
| "py_getitem _ k = Inl TypeError"

text \<open>\<^verbatim>\<open>obj.get(key, default)\<close>: an attribute of dictionaries only.\<close>

fun py_get :: "pyval \<Rightarrow> string \<Rightarrow> pyval \<Rightarrow> py_error + pyval" where
  "py_get (PDict m) k d = (case map_of m k of None \<Rightarrow> Inr d | Some v \<Rightarrow> Inr v)"
| "py_get _ k d = Inl AttributeError"

text \<open>
  The items that \<^verbatim>\<open>for x in obj\<close> visits: the elements of a list, the keys of a dictionary,
  the characters of a string; the other values are not iterable.
\<close>

fun py_iter :: "pyval \<Rightarrow> py_error + pyval list" where
  "py_iter (PList xs) = Inr xs"
| "py_iter (PDict m) = Inr (map (\<lambda>kv. PStr (fst kv)) m)"
| "py_iter (PStr s) = Inr (map (\<lambda>c. PStr [c]) s)"
| "py_iter _ = Inl TypeError"

section \<open>Strings\<close>

definition upper_char :: "char \<Rightarrow> char" where
  "upper_char c =
     (let n = (of_char c :: nat)
      in if of_char CHR ''a'' \<le> n \<and> n \<le> of_char CHR ''z'' then char_of (n - 32) else c)"

definition lower_char :: "char \<Rightarrow> char" where
  "lower_char c =
     (let n = (of_char c :: nat)
      in if of_char CHR ''A'' \<le> n \<and> n \<le> of_char CHR ''Z'' then char_of (n + 32) else c)"

text \<open>
  \<^verbatim>\<open>str.capitalize()\<close>: the first character in upper case and every other character in
  lower case. The model is exact on ASCII; other bytes are left as they are.
\<close>

fun capitalize :: "string \<Rightarrow> string" where
  "capitalize [] = []"
| "capitalize (c # cs) = upper_char c # map lower_char cs"

text \<open>\<^verbatim>\<open>sep.join(items)\<close>.\<close>

fun str_join :: "string \<Rightarrow> string list \<Rightarrow> string" where
  "str_join sep [] = []"
| "str_join sep [x] = x"
| "str_join sep (x # y # ys) = x @ sep @ str_join sep (y # ys)"

text \<open>Decimal digits of a natural number, most significant first.\<close>

function nat_digits :: "nat \<Rightarrow> string" where
  "nat_digits n =
     (if n < 10 then [''0123456789'' ! n]
      else nat_digits (n div 10) @ [''0123456789'' ! (n mod 10)])"
  by pat_completeness auto
termination
  by (relation "measure (\<lambda>n. n)") auto

definition int_str :: "int \<Rightarrow> string" where
  "int_str i = (if i < 0 then CHR ''-'' # nat_digits (nat (- i)) else nat_digits (nat i))"

text \<open>
  \<^verbatim>\<open>repr\<close> of a string: double quotes when the string has a single quote and no double
  quote, single quotes otherwise; the delimiter and the backslash are escaped, control
  characters are written \<^verbatim>\<open>\t\<close>, \<^verbatim>\<open>\n\<close>, \<^verbatim>\<open>\r\<close> or as two hexadecimal digits. Bytes
  above 127 are copied.
\<close>

definition repr_char :: "char \<Rightarrow> char \<Rightarrow> string" where
  "repr_char q c =
     (if c = q \<or> c = CHR 0x5C then [CHR 0x5C, c]
      else if c = CHR 0x09 then [CHR 0x5C, CHR ''t'']
      else if c = CHR 0x0A then [CHR 0x5C, CHR ''n'']
      else if c = CHR 0x0D then [CHR 0x5C, CHR ''r'']
      else if (of_char c :: nat) < 32 \<or> (of_char c :: nat) = 127
        then [CHR 0x5C, CHR ''x'', ''0123456789abcdef'' ! (of_char c div 16),
              ''0123456789abcdef'' ! (of_char c mod 16)]
      else [c])"

definition str_repr :: "string \<Rightarrow> string" where
  "str_repr s =
     (let q = (if CHR 0x27 \<in> set s \<and> CHR 0x22 \<notin> set s then CHR 0x22 else CHR 0x27)
      in q # concat (map (repr_char q) s) @ [q])"

fun py_repr :: "pyval \<Rightarrow> string" where
  "py_repr PNone = ''None''"
| "py_repr (PBool b) = (if b then ''True'' else ''False'')"
| "py_repr (PInt i) = int_str i"
| "py_repr (PStr s) = str_repr s"
| "py_repr (PList xs) = ''['' @ str_join '', '' (map py_repr xs) @ '']''"
| "py_repr (PDict m) =
     ''{'' @ str_join '', '' (map (\<lambda>(k, v). str_repr k @ '': '' @ py_repr v) m) @ ''}''"

text \<open>\<^verbatim>\<open>str(v)\<close>, which is what an empty format specification renders.\<close>

definition py_str :: "pyval \<Rightarrow> string" where
  "py_str v = (case v of PStr s \<Rightarrow> s | _ \<Rightarrow> py_repr v)"

section \<open>Template rendering\<close>

text \<open>
  \<^verbatim>\<open>template.format(**fields)\<close> for templates whose replacement fields are plain keyword
  names, which is all that the templates of this program use: \<^verbatim>\<open>{{\<close> and \<^verbatim>\<open>}}\<close> stand for
  one brace, \<^verbatim>\<open>{name}\<close> is replaced by \<open>str\<close> of the field's value. A name that is not
  among the fields raises \<open>KeyError\<close>; a single closing brace, or an opening brace that is
  never closed, raises \<open>ValueError\<close>. The second argument of \<open>format_from\<close> is the field name
  read so far (reversed) while inside a replacement field.
\<close>

fun format_from :: "(string \<times> pyval) list \<Rightarrow> string option \<Rightarrow> string \<Rightarrow> py_error + string" where
  "format_from fields None [] = Inr []"
| "format_from fields (Some acc) [] = Inl ValueError"
| "format_from fields (Some acc) (c # cs) =
     (if c = CHR ''}'' then
        (case map_of fields (rev acc) of
           None \<Rightarrow> Inl KeyError
         | Some v \<Rightarrow>
             (case format_from fields None cs of
                Inl e \<Rightarrow> Inl e
              | Inr r \<Rightarrow> Inr (py_str v @ r)))
      else format_from fields (Some (c # acc)) cs)"
| "format_from fields None [c] =
     (if c = CHR ''{'' \<or> c = CHR ''}'' then Inl ValueError else Inr [c])"
| "format_from fields None (c # d # cs) =
     (if c = CHR ''{'' \<and> d = CHR ''{'' \<or> c = CHR ''}'' \<and> d = CHR ''}'' then
        (case format_from fields None cs of Inl e \<Rightarrow> Inl e | Inr r \<Rightarrow> Inr (c # r))
      else if c = CHR ''}'' then Inl ValueError
      else if c = CHR ''{'' then format_from fields (Some []) (d # cs)
      else (case format_from fields None (d # cs) of Inl e \<Rightarrow> Inl e | Inr r \<Rightarrow> Inr (c # r)))"

definition py_format :: "string \<Rightarrow> (string \<times> pyval) list \<Rightarrow> py_error + string" where
  "py_format template fields = format_from fields None template"

section \<open>Paths\<close>

text \<open>
  \<^verbatim>\<open>os.path.join(a, *p)\<close> on POSIX: a component that starts with a slash replaces what
  was joined before it, otherwise it is appended, after a slash unless the path so far is
  empty or already ends with one.
\<close>

definition join_step :: "string \<Rightarrow> string \<Rightarrow> string" where
  "join_step path b =
     (if b \<noteq> [] \<and> hd b = CHR ''/'' then b
      else if path = [] \<or> last path = CHR ''/'' then path @ b
      else path @ ''/'' @ b)"

definition os_path_join :: "string \<Rightarrow> string list \<Rightarrow> string" where
  "os_path_join a p = foldl join_step a p"

text \<open>
  \<^verbatim>\<open>os.path.dirname(p)\<close>: everything up to and including the last slash, with the
  trailing slashes removed unless nothing but slashes would remain.
\<close>

definition os_path_dirname :: "string \<Rightarrow> string" where
  "os_path_dirname p =
     (let head = rev (dropWhile (\<lambda>c. c \<noteq> CHR ''/'') (rev p))
      in if head \<noteq> [] \<and> \<not> list_all (\<lambda>c. c = CHR ''/'') head
         then rev (dropWhile (\<lambda>c. c = CHR ''/'') (rev head))
         else head)"

text \<open>\<^verbatim>\<open>s.split(sep)\<close> for a one-character separator: never the empty list.\<close>

fun split_on :: "char \<Rightarrow> string \<Rightarrow> string list" where
  "split_on sep [] = [[]]"
| "split_on sep (c # cs) =
     (if c = sep then [] # split_on sep cs
      else (case split_on sep cs of [] \<Rightarrow> [[c]] | w # ws \<Rightarrow> (c # w) # ws))"

section \<open>The file system\<close>

text \<open>
  A file system without symbolic links and without permissions: a partial map from
  resolved absolute locations (the list of names below the root, \<open>[]\<close> for the root) to
  directories and regular files with their contents. A path string is resolved name by
  name from the root when it starts with a slash and from the working directory
  otherwise.
\<close>

datatype node = Dir | File string

type_synonym location = "string list"

type_synonym filesystem = "location \<Rightarrow> node option"

text \<open>
  A statement that touches the file system maps the state to an optional exception and
  the state it leaves: what was written before an exception stays written.
\<close>

type_synonym action = "filesystem \<Rightarrow> py_error option \<times> filesystem"

definition start_of :: "location \<Rightarrow> string \<Rightarrow> location" where
  "start_of cwd p = (if p \<noteq> [] \<and> hd p = CHR ''/'' then [] else cwd)"

text \<open>
  Path resolution: every name is looked up in a directory that must exist; empty names
  and \<^verbatim>\<open>.\<close> stay, \<^verbatim>\<open>..\<close> goes to the parent (the root is its own parent). The location of
  the last name is returned whether or not something exists there.
\<close>

fun walk :: "filesystem \<Rightarrow> location \<Rightarrow> string list \<Rightarrow> py_error + location" where
  "walk fs cur [] = Inr cur"
| "walk fs cur (c # cs) =
     (case fs cur of
        None \<Rightarrow> Inl FileNotFoundError
      | Some (File x) \<Rightarrow> Inl NotADirectoryError
      | Some Dir \<Rightarrow>
          if c = [] \<or> c = ''.'' then walk fs cur cs
          else if c = ''..'' then walk fs (butlast cur) cs
          else walk fs (cur @ [c]) cs)"

definition resolve :: "filesystem \<Rightarrow> location \<Rightarrow> string \<Rightarrow> py_error + location" where
  "resolve fs cwd p =
     (if p = [] then Inl FileNotFoundError
      else walk fs (start_of cwd p) (split_on CHR ''/'' p))"

text \<open>
  \<^verbatim>\<open>os.makedirs(name, exist_ok=True)\<close>: along the path, every directory that is missing
  is created and every directory that exists is entered. A regular file in the way
  raises \<open>FileExistsError\<close> when it is the last name and \<open>NotADirectoryError\<close> before.
\<close>

fun mkdirs :: "location \<Rightarrow> string list \<Rightarrow> action" where
  "mkdirs cur [] fs = (None, fs)"
| "mkdirs cur (c # cs) fs =
     (case fs cur of
        None \<Rightarrow> (Some FileNotFoundError, fs)
      | Some (File x) \<Rightarrow> (Some NotADirectoryError, fs)
      | Some Dir \<Rightarrow>
          if c = [] \<or> c = ''.'' then mkdirs cur cs fs
          else if c = ''..'' then mkdirs (butlast cur) cs fs
          else
            (case fs (cur @ [c]) of
               None \<Rightarrow> mkdirs (cur @ [c]) cs (fs(cur @ [c] \<mapsto> Dir))
             | Some Dir \<Rightarrow> mkdirs (cur @ [c]) cs fs
             | Some (File x) \<Rightarrow>
                 (Some (if cs = [] then FileExistsError else NotADirectoryError), fs)))"

definition os_makedirs :: "location \<Rightarrow> string \<Rightarrow> action" where
  "os_makedirs cwd name fs =
     (if name = [] then (Some FileNotFoundError, fs)
      else mkdirs (start_of cwd name) (split_on CHR ''/'' name) fs)"

text \<open>
  \<^verbatim>\<open>with open(file_path, "w") as file: file.write(content)\<close>: the file is created or
  truncated and holds exactly \<open>content\<close> afterwards; a directory cannot be opened.
\<close>

definition write_file :: "location \<Rightarrow> string \<Rightarrow> string \<Rightarrow> action" where
  "write_file cwd file_path content fs =
     (case resolve fs cwd file_path of
        Inl e \<Rightarrow> (Some e, fs)
      | Inr q \<Rightarrow>
          (case fs q of
             Some Dir \<Rightarrow> (Some IsADirectoryError, fs)
           | _ \<Rightarrow> (None, fs(q \<mapsto> File content))))"

text \<open>Sequencing: the second action runs only if the first raised nothing.\<close>

definition and_then :: "action \<Rightarrow> action \<Rightarrow> action" where
  "and_then f g fs = (case f fs of (None, fs') \<Rightarrow> g fs' | (Some e, fs') \<Rightarrow> (Some e, fs'))"

text \<open>A \<^verbatim>\<open>for\<close> loop over a list whose body is an action.\<close>

fun for_each :: "('a \<Rightarrow> action) \<Rightarrow> 'a list \<Rightarrow> action" where
  "for_each body [] fs = (None, fs)"
| "for_each body (x # xs) fs =
     (case body x fs of
        (None, fs') \<Rightarrow> for_each body xs fs'
      | (Some e, fs') \<Rightarrow> (Some e, fs'))"

text \<open>Raising an exception, and evaluating an expression that may raise one.\<close>

definition raise :: "py_error \<Rightarrow> action" where
  "raise e fs = (Some e, fs)"

definition eval_then :: "py_error + 'a \<Rightarrow> ('a \<Rightarrow> action) \<Rightarrow> action" where
  "eval_then r k = (case r of Inl e \<Rightarrow> raise e | Inr v \<Rightarrow> k v)"

section \<open>The generators of DashCraft.py\<close>

text \<open>
  Every function below takes the working directory of the process as its first argument;
  the other arguments are those of the Python function, in the same order.
\<close>

definition PROJECT_STRUCTURE :: "(string \<times> string list) list" where
  "PROJECT_STRUCTURE =
     [(''public'', []),
      (''src'', [''components'', ''layouts'', ''pages'', ''services'', ''themes'', ''utils'',
                 ''mockData''])]"

definition create_project_structure ::
    "location \<Rightarrow> string \<Rightarrow> (string \<times> string list) list \<Rightarrow> action" where
  "create_project_structure cwd base_dir structure =
     for_each (\<lambda>(folder, subfolders).
         let folder_path = os_path_join base_dir [folder]
         in and_then (os_makedirs cwd folder_path)
              (for_each (\<lambda>subfolder. os_makedirs cwd (os_path_join folder_path [subfolder]))
                 subfolders))
       structure"

definition component_template :: string where
  \<open>component_template =
     ''\<newline>'' @
     ''import React from 'react';\<newline>'' @
     ''\<newline>'' @
     ''const {name} = () => {{\<newline>'' @
     ''    return (\<newline>'' @
     ''        <div>\<newline>'' @
     ''            <h1>{title}</h1>\<newline>'' @
     ''        </div>\<newline>'' @
     ''    );\<newline>'' @
     ''}};\<newline>'' @
     ''\<newline>'' @
     ''export default {name};\<newline>'' @
     ''    ''\<close>

definition theme_template :: string where
  \<open>theme_template =
     ''\<newline>'' @
     ''import {{ createTheme }} from '@mui/material/styles';\<newline>'' @
     ''\<newline>'' @
     ''const theme = createTheme({{\<newline>'' @
     ''    palette: {{\<newline>'' @
     ''        mode: '{mode}',\<newline>'' @
     ''        primary: {{\<newline>'' @
     ''            main: '{primaryColor}',\<newline>'' @
     ''        }},\<newline>'' @
     ''        secondary: {{\<newline>'' @
     ''            main: '{secondaryColor}',\<newline>'' @
     ''        }},\<newline>'' @
     ''    }},\<newline>'' @
     ''}});\<newline>'' @
     ''\<newline>'' @
     ''export default theme;\<newline>'' @
     ''    ''\<close>

definition index_js_content :: string where
  \<open>index_js_content =
     ''\<newline>'' @
     ''import React from 'react';\<newline>'' @
     ''import ReactDOM from 'react-dom';\<newline>'' @
     ''import App from './App';\<newline>'' @
     ''\<newline>'' @
     ''ReactDOM.render(\<newline>'' @
     ''    <React.StrictMode>\<newline>'' @
     ''        <App />\<newline>'' @
     ''    </React.StrictMode>,\<newline>'' @
     ''    document.getElementById('root')\<newline>'' @
     '');\<newline>'' @
     ''    ''\<close>

definition app_js_content :: string where
  \<open>app_js_content =
     ''\<newline>'' @
     ''import React from 'react';\<newline>'' @
     ''import './App.css';\<newline>'' @
     ''import ThemeProvider from '@mui/material/styles/ThemeProvider';\<newline>'' @
     ''import theme from './themes/theme';\<newline>'' @
     ''\<newline>'' @
     ''function App() {\<newline>'' @
     ''    return (\<newline>'' @
     ''        <ThemeProvider theme={theme}>\<newline>'' @
     ''            <div>\<newline>'' @
     ''                <h1>Welcome to DashCraft!</h1>\<newline>'' @
     ''                <p>Your dashboard is ready to go.</p>\<newline>'' @
     ''            </div>\<newline>'' @
     ''        </ThemeProvider>\<newline>'' @
     ''    );\<newline>'' @
     ''}\<newline>'' @
     ''\<newline>'' @
     ''export default App;\<newline>'' @
     ''    ''\<close>

definition package_json_content :: string where
  \<open>package_json_content =
     ''\<newline>'' @
     ''{\<newline>'' @
     ''  "name": "dashcraft-app",\<newline>'' @
     ''  "version": "1.0.0",\<newline>'' @
     ''  "private": true,\<newline>'' @
     ''  "dependencies": {\<newline>'' @
     ''    "@mui/material": "^5.0.0",\<newline>'' @
     ''    "@emotion/react": "^11.0.0",\<newline>'' @
     ''    "@emotion/styled": "^11.0.0",\<newline>'' @
     ''    "react": "^18.0.0",\<newline>'' @
     ''    "react-dom": "^18.0.0",\<newline>'' @
     ''    "react-scripts": "5.0.0"\<newline>'' @
     ''  },\<newline>'' @
     ''  "scripts": {\<newline>'' @
     ''    "start": "react-scripts start",\<newline>'' @
     ''    "build": "react-scripts build",\<newline>'' @
     ''    "test": "react-scripts test",\<newline>'' @
     ''    "eject": "react-scripts eject"\<newline>'' @
     ''  }\<newline>'' @
     ''}\<newline>'' @
     ''    ''\<close>

text \<open>\<^verbatim>\<open>value.capitalize()\<close>: a method of strings only.\<close>

fun py_capitalize :: "pyval \<Rightarrow> py_error + string" where
  "py_capitalize (PStr s) = Inr (capitalize s)"
| "py_capitalize _ = Inl AttributeError"

definition component_file_path :: "string \<Rightarrow> pyval \<Rightarrow> string" where
  "component_file_path output_dir cid =
     os_path_join output_dir [''src'', ''components'', py_str cid @ ''.js'']"

definition generate_component :: "location \<Rightarrow> pyval \<Rightarrow> string \<Rightarrow> action" where
  "generate_component cwd component output_dir =
     eval_then (py_getitem component ''id'') (\<lambda>cid.
     eval_then (py_capitalize cid) (\<lambda>name.
     eval_then (py_get component ''options'' (PDict [])) (\<lambda>options.
     eval_then (py_get options ''title'' (PStr ''Component'')) (\<lambda>title.
     eval_then (py_format component_template [(''name'', PStr name), (''title'', title)])
       (\<lambda>content.
          let file_path = component_file_path output_dir cid
          in and_then (os_makedirs cwd (os_path_dirname file_path))
               (write_file cwd file_path content))))))"

definition generate_theme :: "location \<Rightarrow> pyval \<Rightarrow> string \<Rightarrow> action" where
  "generate_theme cwd theme output_dir =
     eval_then (py_get theme ''mode'' (PStr ''light'')) (\<lambda>mode.
     eval_then (py_get theme ''primaryColor'' (PStr ''#1976d2'')) (\<lambda>primaryColor.
     eval_then (py_get theme ''secondaryColor'' (PStr ''#ff4081'')) (\<lambda>secondaryColor.
     eval_then (py_format theme_template
                  [(''mode'', mode), (''primaryColor'', primaryColor),
                   (''secondaryColor'', secondaryColor)])
       (\<lambda>content.
          let file_path = os_path_join output_dir [''src'', ''themes'', ''theme.js'']
          in and_then (os_makedirs cwd (os_path_dirname file_path))
               (write_file cwd file_path content)))))"

definition generate_index_js :: "location \<Rightarrow> string \<Rightarrow> action" where
  "generate_index_js cwd output_dir =
     (let file_path = os_path_join output_dir [''src'', ''index.js'']
      in and_then (os_makedirs cwd (os_path_dirname file_path))
           (write_file cwd file_path index_js_content))"

definition generate_app_js :: "location \<Rightarrow> string \<Rightarrow> action" where
  "generate_app_js cwd output_dir =
     (let file_path = os_path_join output_dir [''src'', ''App.js'']
      in and_then (os_makedirs cwd (os_path_dirname file_path))
           (write_file cwd file_path app_js_content))"

definition generate_package_json :: "location \<Rightarrow> string \<Rightarrow> action" where
  "generate_package_json cwd output_dir =
     write_file cwd (os_path_join output_dir [''package.json'']) package_json_content"

text \<open>
  The branch of \<^verbatim>\<open>main\<close> for choice 1 (lines 249 to 262), after the configuration file
  has been loaded: \<open>config\<close> is what \<^verbatim>\<open>load_yaml\<close> returned (\<open>PNone\<close> when it failed) and
  \<open>output_input\<close> is the line typed at the prompt for the output directory.
\<close>

definition main_create :: "location \<Rightarrow> pyval \<Rightarrow> string \<Rightarrow> action" where
  "main_create cwd config output_input =
     (if \<not> truthy config then (\<lambda>fs. (None, fs))
      else
        let output_dir = (if output_input = [] then ''./output'' else output_input)
        in and_then (create_project_structure cwd output_dir PROJECT_STRUCTURE)
          (and_then (generate_index_js cwd output_dir)
          (and_then (generate_app_js cwd output_dir)
          (and_then (generate_package_json cwd output_dir)
          (and_then
             (eval_then (py_get config ''components'' (PList [])) (\<lambda>components.
              eval_then (py_iter components) (\<lambda>items.
              for_each (\<lambda>component. generate_component cwd component output_dir) items)))
             (eval_then (py_get config ''theme'' (PDict [])) (\<lambda>theme.
              generate_theme cwd theme output_dir)))))))"

section \<open>The purge operation\<close>

datatype purge_error = FilesystemError | UnsafePurgeError

text \<open>
  Modelled from the spec: the purge routine. Line 265 of \<^verbatim>\<open>DashCraft.py\<close> calls
  \<^verbatim>\<open>purge_dashboard(target_dir)\<close>, which no source file defines. The definition follows
  sections 4.7, 7 and 8 of the specification: an empty path, the file system root and a
  proper ancestor of the working directory are refused with \<open>UnsafePurgeError\<close>; a path
  that does not exist or is not a directory is reported as \<open>FilesystemError\<close>; otherwise
  the whole tree below the target is removed together with the target itself.
\<close>

definition purgeProject :: "location \<Rightarrow> string \<Rightarrow> filesystem \<Rightarrow> purge_error option \<times> filesystem" where
  "purgeProject cwd targetRoot fs =
     (if targetRoot = [] then (Some UnsafePurgeError, fs)
      else
        (case resolve fs cwd targetRoot of
           Inl e \<Rightarrow> (Some FilesystemError, fs)
         | Inr q \<Rightarrow>
             (case fs q of
                None \<Rightarrow> (Some FilesystemError, fs)
              | Some (File x) \<Rightarrow> (Some FilesystemError, fs)
              | Some Dir \<Rightarrow>
                  if q = [] \<or> strict_prefix q cwd then (Some UnsafePurgeError, fs)
                  else (None, (\<lambda>p. if prefix q p then None else fs p)))))"

section \<open>Notions used to state the properties\<close>

text \<open>
  Where a list of names leads, whatever exists: the location that \<open>walk\<close> returns when it
  succeeds.
\<close>

fun locate :: "location \<Rightarrow> string list \<Rightarrow> location" where
  "locate cur [] = cur"
| "locate cur (c # cs) =
     (if c = [] \<or> c = ''.'' then locate cur cs
      else if c = ''..'' then locate (butlast cur) cs
      else locate (cur @ [c]) cs)"

definition location_of :: "location \<Rightarrow> string \<Rightarrow> location" where
  "location_of cwd p = locate (start_of cwd p) (split_on CHR ''/'' p)"

text \<open>The regular files of a state.\<close>

definition files_of :: "filesystem \<Rightarrow> location set" where
  "files_of fs = {p. \<exists>content. fs p = Some (File content)}"

text \<open>
  A name that path resolution enters: not empty, not \<^verbatim>\<open>.\<close> or \<^verbatim>\<open>..\<close>, and without a
  slash.
\<close>

definition plain_name :: "string \<Rightarrow> bool" where
  "plain_name b = (b \<noteq> [] \<and> b \<noteq> ''.'' \<and> b \<noteq> ''..'' \<and> CHR ''/'' \<notin> set b)"

text \<open>
  \<open>kind_le s t\<close>: the state \<open>t\<close> has a directory wherever \<open>s\<close> has one and a regular file
  wherever \<open>s\<close> has one. \<open>between s F t\<close>: at every location \<open>t\<close> agrees with \<open>s\<close> or with \<open>F\<close>.
\<close>

definition kind_le :: "filesystem \<Rightarrow> filesystem \<Rightarrow> bool" where
  "kind_le s t =
     (\<forall>p. (s p = Some Dir \<longrightarrow> t p = Some Dir) \<and> (p \<in> files_of s \<longrightarrow> p \<in> files_of t))"

definition between :: "filesystem \<Rightarrow> filesystem \<Rightarrow> filesystem \<Rightarrow> bool" where
  "between s F t = (\<forall>p. t p = s p \<or> t p = F p)"

text \<open>
  An action grows the state when it never removes an entry or changes its kind. It can be
  replayed when a run that succeeded from \<open>s\<close> also succeeds from every state between \<open>s\<close>
  and a later state \<open>F\<close>, and leaves a state between its first result and \<open>F\<close>.
\<close>

definition grows :: "action \<Rightarrow> bool" where
  "grows f = (\<forall>s r s'. f s = (r, s') \<longrightarrow> kind_le s s')"

definition replays :: "action \<Rightarrow> bool" where
  "replays f =
     (\<forall>s s' F t. f s = (None, s') \<and> kind_le s' F \<and> between s F t \<longrightarrow>
        (\<exists>t'. f t = (None, t') \<and> between s' F t'))"

text \<open>
  The example of section 8 of the specification: one component \<^verbatim>\<open>chart\<close> and a dark theme,
  generated from the working directory \<^verbatim>\<open>/home\<close> of a file system that holds nothing else.
\<close>

definition example_config :: pyval where
  "example_config =
     PDict [(''components'', PList [PDict [(''id'', PStr ''chart'')]]),
            (''theme'', PDict [(''mode'', PStr ''dark'')])]"

definition example_fs :: filesystem where
  "example_fs = [[] \<mapsto> Dir, [''home''] \<mapsto> Dir]"

text \<open>An action that creates directories and does nothing else.\<close>

definition dirs_only :: "action \<Rightarrow> bool" where
  "dirs_only f =
     (\<forall>s r s' p. f s = (r, s') \<longrightarrow> s' p = s p \<or> (s p = None \<and> s' p = Some Dir))"

text \<open>
  The texts that the two templates render to: the template with each pair of braces
  written once and each replacement field filled in.
\<close>

definition rendered_component :: "string \<Rightarrow> string \<Rightarrow> string" where
  \<open>rendered_component name title =
     ''\<newline>'' @
     ''import React from 'react';\<newline>'' @
     ''\<newline>'' @
     ''const '' @ name @ '' = () => {\<newline>'' @
     ''    return (\<newline>'' @
     ''        <div>\<newline>'' @
     ''            <h1>'' @ title @ ''</h1>\<newline>'' @
     ''        </div>\<newline>'' @
     ''    );\<newline>'' @
     ''};\<newline>'' @
     ''\<newline>'' @
     ''export default '' @ name @ '';\<newline>'' @
     ''    ''\<close>

definition rendered_theme :: "string \<Rightarrow> string \<Rightarrow> string \<Rightarrow> string" where
  \<open>rendered_theme mode primaryColor secondaryColor =
     ''\<newline>'' @
     ''import { createTheme } from '@mui/material/styles';\<newline>'' @
     ''\<newline>'' @
     ''const theme = createTheme({\<newline>'' @
     ''    palette: {\<newline>'' @
     ''        mode: '' @ [CHR 0x27] @ mode @ [CHR 0x27] @ '',\<newline>'' @
     ''        primary: {\<newline>'' @
     ''            main: '' @ [CHR 0x27] @ primaryColor @ [CHR 0x27] @ '',\<newline>'' @
     ''        },\<newline>'' @
     ''        secondary: {\<newline>'' @
     ''            main: '' @ [CHR 0x27] @ secondaryColor @ [CHR 0x27] @ '',\<newline>'' @
     ''        },\<newline>'' @
     ''    },\<newline>'' @
     ''});\<newline>'' @
     ''\<newline>'' @
     ''export default theme;\<newline>'' @
     ''    ''\<close>

text \<open>
  The title of a component as the specification words it: the \<^verbatim>\<open>title\<close> option, and
  \<^verbatim>\<open>Component\<close> when the options are absent or have no title. The value of a theme key
  with its default.
\<close>

definition component_title :: "(string \<times> pyval) list \<Rightarrow> pyval" where
  "component_title c =
     (case map_of c ''options'' of
        Some (PDict options) \<Rightarrow>
          (case map_of options ''title'' of Some t \<Rightarrow> t | None \<Rightarrow> PStr ''Component'')
      | _ \<Rightarrow> PStr ''Component'')"

definition theme_value :: "(string \<times> pyval) list \<Rightarrow> string \<Rightarrow> string \<Rightarrow> string" where
  "theme_value theme key dflt =
     (case map_of theme key of Some v \<Rightarrow> py_str v | None \<Rightarrow> dflt)"


text \<open>
  \<open>effect fs W fs'\<close>: the state \<open>fs'\<close> is \<open>fs\<close> with the files of \<open>W\<close> written and
  directories created where nothing was.
\<close>

definition effect :: "filesystem \<Rightarrow> (location \<Rightarrow> string option) \<Rightarrow> filesystem \<Rightarrow> bool" where
  "effect fs W fs' =
     (\<forall>p. case W p of
            Some content \<Rightarrow> fs' p = Some (File content)
          | None \<Rightarrow> fs' p = fs p \<or> (fs p = None \<and> fs' p = Some Dir))"

section \<open>Splitting and joining paths\<close>

lemma split_on_not_Nil: "split_on sep s \<noteq> []"
  by (induction s) (auto split: list.splits)

lemma split_on_append: "split_on sep (x @ sep # y) = split_on sep x @ split_on sep y"
proof (induction x)
  case Nil
  show ?case by simp
next
  case (Cons c x)
  obtain w ws where w: "split_on sep x = w # ws"
    using split_on_not_Nil [of sep x] by (cases "split_on sep x") auto
  show ?case using Cons w by simp
qed

lemma split_on_plain: "sep \<notin> set b \<Longrightarrow> split_on sep b = [b]"
  by (induction b) auto

lemma split_on_snoc_sep: "split_on sep (x @ [sep]) = split_on sep x @ [[]]"
  using split_on_append [of sep x "[]"] by simp

lemma locate_append: "locate cur (xs @ ys) = locate (locate cur xs) ys"
  by (induction xs arbitrary: cur) auto

lemma locate_plain: "plain_name b \<Longrightarrow> locate cur [b] = cur @ [b]"
  by (simp add: plain_name_def)

lemma join_step_plain:
  assumes "plain_name b"
  shows "join_step a b = (if a = [] \<or> last a = CHR ''/'' then a @ b else a @ CHR ''/'' # b)"
proof -
  have "hd b \<noteq> CHR ''/''"
    using assms by (cases b) (auto simp: plain_name_def)
  then show ?thesis by (simp add: join_step_def)
qed


lemma start_of_append: "a \<noteq> [] \<Longrightarrow> start_of cwd (a @ b) = start_of cwd a"
  by (simp add: start_of_def)

lemma start_of_join_step:
  assumes "plain_name b"
  shows "start_of cwd (join_step a b) = start_of cwd a"
proof (cases "a = []")
  case True
  have "hd b \<noteq> CHR ''/''"
    using assms by (cases b) (auto simp: plain_name_def)
  then show ?thesis
    using True assms by (simp add: join_step_plain start_of_def)
next
  case False
  then show ?thesis
    using assms by (simp add: join_step_plain start_of_def)
qed

text \<open>
  The names of a joined path are the names of its first part followed by the plain name
  joined to it, up to one empty name in between when the first part ends with a slash.
\<close>

lemma split_join_step:
  assumes "plain_name b"
  shows "split_on CHR ''/'' (join_step a b) =
           (if a = [] then [b]
            else if last a = CHR ''/'' then butlast (split_on CHR ''/'' a) @ [b]
            else split_on CHR ''/'' a @ [b])"
proof -
  have nb: "CHR ''/'' \<notin> set b"
    using assms by (simp add: plain_name_def)
  show ?thesis
  proof (cases "a = []")
    case True
    then show ?thesis
      using nb by (simp add: join_step_plain [OF assms] split_on_plain)
  next
    case False
    show ?thesis
    proof (cases "last a = CHR ''/''")
      case True
      obtain x where a: "a = x @ [CHR ''/'']"
        using False True by (metis append_butlast_last_id)
      show ?thesis
        using nb by (simp add: a join_step_plain [OF assms] split_on_append split_on_plain
            split_on_snoc_sep)
    next
      case nl: False
      then show ?thesis
        using False nb by (simp add: join_step_plain [OF assms] split_on_append split_on_plain)
    qed
  qed
qed

lemma location_of_join_step:
  assumes "plain_name b"
  shows "location_of cwd (join_step a b) = location_of cwd a @ [b]"
proof -
  let ?s = "start_of cwd a"
  have st: "start_of cwd (join_step a b) = ?s"
    by (rule start_of_join_step [OF assms])
  have lp: "\<And>cur. locate cur [b] = cur @ [b]"
    by (rule locate_plain [OF assms])
  show ?thesis
  proof (cases "a = []")
    case True
    have "split_on CHR ''/'' (join_step a b) = [b]"
      using True by (simp add: split_join_step [OF assms])
    then have "location_of cwd (join_step a b) = ?s @ [b]"
      by (simp only: location_of_def st lp)
    moreover have "location_of cwd a = ?s"
      using True by (simp add: location_of_def)
    ultimately show ?thesis by simp
  next
    case False
    show ?thesis
    proof (cases "last a = CHR ''/''")
      case True
      obtain x where a: "a = x @ [CHR ''/'']"
        using False True by (metis append_butlast_last_id)
      have "split_on CHR ''/'' (join_step a b) = split_on CHR ''/'' x @ [b]"
        by (simp add: split_join_step [OF assms] a split_on_snoc_sep)
      then have "location_of cwd (join_step a b) = locate ?s (split_on CHR ''/'' x) @ [b]"
        by (simp only: location_of_def st locate_append lp)
      moreover have "location_of cwd a = locate ?s (split_on CHR ''/'' x)"
        by (simp add: location_of_def a split_on_snoc_sep locate_append)
      ultimately show ?thesis by simp
    next
      case nl: False
      have "split_on CHR ''/'' (join_step a b) = split_on CHR ''/'' a @ [b]"
        using False nl by (simp add: split_join_step [OF assms])
      then have "location_of cwd (join_step a b) = locate ?s (split_on CHR ''/'' a) @ [b]"
        by (simp only: location_of_def st locate_append lp)
      then show ?thesis
        by (simp add: location_of_def)
    qed
  qed
qed

lemma os_path_join_snoc: "os_path_join a (bs @ [b]) = join_step (os_path_join a bs) b"
  by (simp add: os_path_join_def)

lemma location_of_join:
  "list_all plain_name bs \<Longrightarrow> location_of cwd (os_path_join a bs) = location_of cwd a @ bs"
proof (induction bs rule: rev_induct)
  case Nil
  show ?case by (simp add: os_path_join_def)
next
  case (snoc b bs)
  then show ?case
    by (simp add: os_path_join_snoc location_of_join_step)
qed



section \<open>Path resolution and directory creation\<close>

lemma walk_locate: "walk fs cur cs = Inr q \<Longrightarrow> q = locate cur cs"
  by (induction cs arbitrary: cur) (auto split: option.splits node.splits if_splits)


lemma walk_mono:
  assumes "walk s cur cs = Inr q" and "\<And>p. s p = Some Dir \<Longrightarrow> t p = Some Dir"
  shows "walk t cur cs = Inr q"
  using assms(1)
proof (induction cs arbitrary: cur)
  case Nil
  then show ?case by simp
next
  case (Cons c cs)
  from Cons.prems have "s cur = Some Dir"
    by (auto split: option.splits node.splits)
  then have "t cur = Some Dir" "s cur = Some Dir"
    using assms(2) by simp_all
  then show ?case
    using Cons by (auto split: if_splits)
qed

text \<open>Directory creation only adds directories, and only where nothing was.\<close>

lemma mkdirs_frame:
  "mkdirs cur cs s = (r, s') \<Longrightarrow> s' p = s p \<or> (s p = None \<and> s' p = Some Dir)"
proof (induction cs arbitrary: cur s)
  case Nil
  then show ?case by simp
next
  case (Cons c cs)
  show ?case
  proof (cases "s cur")
    case None
    then show ?thesis using Cons.prems by simp
  next
    case (Some n)
    show ?thesis
    proof (cases n)
      case (File x)
      then show ?thesis using Cons.prems Some by simp
    next
      case Dir
      note d = Some [unfolded Dir]
      show ?thesis
      proof (cases "c = [] \<or> c = ''.''")
        case True
        then have "mkdirs cur cs s = (r, s')"
          using Cons.prems d by auto
        then show ?thesis by (rule Cons.IH)
      next
        case triv: False
        show ?thesis
        proof (cases "c = ''..''")
          case True
          then have "mkdirs (butlast cur) cs s = (r, s')"
            using Cons.prems d by simp
          then show ?thesis by (rule Cons.IH)
        next
          case False
          show ?thesis
          proof (cases "s (cur @ [c])")
            case None
            then have "mkdirs (cur @ [c]) cs (s(cur @ [c] \<mapsto> Dir)) = (r, s')"
              using Cons.prems d triv False by simp
            from Cons.IH [OF this] show ?thesis
              using None by (auto split: if_splits)
          next
            case (Some m)
            show ?thesis
            proof (cases m)
              case Dir
              then have "mkdirs (cur @ [c]) cs s = (r, s')"
                using Cons.prems d triv False Some by simp
              then show ?thesis by (rule Cons.IH)
            next
              case (File x)
              then show ?thesis
                using Cons.prems d triv False Some by simp
            qed
          qed
        qed
      qed
    qed
  qed
qed

lemma mkdirs_keeps_dir: "mkdirs cur cs s = (r, s') \<Longrightarrow> s p = Some Dir \<Longrightarrow> s' p = Some Dir"
  using mkdirs_frame [of cur cs s r s' p] by auto

lemma mkdirs_keeps_file:
  "mkdirs cur cs s = (r, s') \<Longrightarrow> s' p = Some (File x) \<longleftrightarrow> s p = Some (File x)"
  using mkdirs_frame [of cur cs s r s' p] by auto

text \<open>After a successful creation the path resolves, and its last plain name is a directory.\<close>

lemma mkdirs_final_dir:
  assumes "mkdirs cur cs s = (None, s')" and "cs \<noteq> []" and "plain_name (last cs)"
  shows "s' (locate cur cs) = Some Dir"
  using assms
proof (induction cs arbitrary: cur s)
  case Nil
  then show ?case by simp
next
  case (Cons c cs)
  from Cons.prems(1) have d: "s cur = Some Dir"
    by (auto split: option.splits node.splits)
  show ?case
  proof (cases "cs = []")
    case True
    then have pc: "c \<noteq> []" "c \<noteq> ''.''" "c \<noteq> ''..''"
      using Cons.prems(3) by (auto simp: plain_name_def)
    show ?thesis
      using Cons.prems(1) d pc True by (auto split: option.splits node.splits)
  next
    case False
    then have pl: "plain_name (last cs)"
      using Cons.prems(3) by simp
    show ?thesis
    proof (cases "c = [] \<or> c = ''.''")
      case True
      then have "mkdirs cur cs s = (None, s')"
        using Cons.prems(1) d by auto
      from Cons.IH [OF this False pl] show ?thesis
        using True by auto
    next
      case triv: False
      show ?thesis
      proof (cases "c = ''..''")
        case True
        then have "mkdirs (butlast cur) cs s = (None, s')"
          using Cons.prems(1) d by simp
        from Cons.IH [OF this False pl] show ?thesis
          using True by simp
      next
        case nd: False
        show ?thesis
        proof (cases "s (cur @ [c])")
          case None
          then have "mkdirs (cur @ [c]) cs (s(cur @ [c] \<mapsto> Dir)) = (None, s')"
            using Cons.prems(1) d triv nd by simp
          from Cons.IH [OF this False pl] show ?thesis
            using triv nd by simp
        next
          case (Some m)
          then have "mkdirs (cur @ [c]) cs s = (None, s')"
            using Cons.prems(1) d triv nd by (cases m) auto
          from Cons.IH [OF this False pl] show ?thesis
            using triv nd by simp
        qed
      qed
    qed
  qed
qed


lemma mkdirs_resolves:
  "mkdirs cur cs s = (None, s') \<Longrightarrow> walk s' cur cs = Inr (locate cur cs)"
proof (induction cs arbitrary: cur s)
  case Nil
  then show ?case by simp
next
  case (Cons c cs)
  from Cons.prems have d: "s cur = Some Dir"
    by (auto split: option.splits node.splits)
  then have d': "s' cur = Some Dir"
    using Cons.prems mkdirs_keeps_dir by blast
  show ?case
  proof (cases "c = [] \<or> c = ''.''")
    case True
    then have "mkdirs cur cs s = (None, s')"
      using Cons.prems d by auto
    from Cons.IH [OF this] show ?thesis
      using True d' by auto
  next
    case triv: False
    show ?thesis
    proof (cases "c = ''..''")
      case True
      then have "mkdirs (butlast cur) cs s = (None, s')"
        using Cons.prems d by simp
      from Cons.IH [OF this] show ?thesis
        using True d' by simp
    next
      case nd: False
      show ?thesis
      proof (cases "s (cur @ [c])")
        case None
        then have "mkdirs (cur @ [c]) cs (s(cur @ [c] \<mapsto> Dir)) = (None, s')"
          using Cons.prems d triv nd by simp
        from Cons.IH [OF this] show ?thesis
          using triv nd d' by simp
      next
        case (Some m)
        then have "mkdirs (cur @ [c]) cs s = (None, s')"
          using Cons.prems d triv nd by (cases m) auto
        from Cons.IH [OF this] show ?thesis
          using triv nd d' by simp
      qed
    qed
  qed
qed

section \<open>Growing and replaying\<close>

lemma kind_le_refl: "kind_le s s"
  by (simp add: kind_le_def)

lemma kind_le_trans: "kind_le s t \<Longrightarrow> kind_le t u \<Longrightarrow> kind_le s u"
  unfolding kind_le_def by blast

lemma kind_le_dir: "kind_le s t \<Longrightarrow> s p = Some Dir \<Longrightarrow> t p = Some Dir"
  unfolding kind_le_def by blast

lemma kind_le_file: "kind_le s t \<Longrightarrow> s p = Some (File x) \<Longrightarrow> \<exists>y. t p = Some (File y)"
  unfolding kind_le_def files_of_def by blast

lemma between_dir:
  assumes "between s F t" and "s p = Some Dir" and "F p = Some Dir"
  shows "t p = Some Dir"
proof -
  have "t p = s p \<or> t p = F p"
    using assms(1) unfolding between_def by blast
  then show ?thesis
    using assms(2,3) by auto
qed

lemma mkdirs_grows:
  assumes "mkdirs cur cs s = (r, s')"
  shows "kind_le s s'"
proof -
  have fr: "s' p = s p \<or> (s p = None \<and> s' p = Some Dir)" for p
    using mkdirs_frame [OF assms] .
  have "(s p = Some Dir \<longrightarrow> s' p = Some Dir) \<and> (p \<in> files_of s \<longrightarrow> p \<in> files_of s')" for p
    using fr [of p] by (auto simp: files_of_def)
  then show ?thesis
    unfolding kind_le_def by blast
qed

lemma mkdirs_replay:
  assumes "mkdirs cur cs s = (None, s')" and "kind_le s' F" and "between s F t"
  shows "\<exists>t'. mkdirs cur cs t = (None, t') \<and> between s' F t'"
  using assms(1,3)
proof (induction cs arbitrary: cur s t)
  case Nil
  then show ?case by simp
next
  case (Cons c cs)
  from Cons.prems(1) have d: "s cur = Some Dir"
    by (auto split: option.splits node.splits)
  then have "s' cur = Some Dir"
    using Cons.prems(1) mkdirs_keeps_dir by blast
  then have "F cur = Some Dir"
    using assms(2) kind_le_dir by blast
  then have dt: "t cur = Some Dir"
    using between_dir [OF Cons.prems(2) d] by simp
  show ?case
  proof (cases "c = [] \<or> c = ''.''")
    case True
    then have "mkdirs cur cs s = (None, s')"
      using Cons.prems(1) d by auto
    moreover have "mkdirs cur (c # cs) t = mkdirs cur cs t"
      using True dt by auto
    ultimately show ?thesis
      using Cons.IH [OF _ Cons.prems(2)] by simp
  next
    case triv: False
    show ?thesis
    proof (cases "c = ''..''")
      case True
      then have "mkdirs (butlast cur) cs s = (None, s')"
        using Cons.prems(1) d by simp
      moreover have "mkdirs cur (c # cs) t = mkdirs (butlast cur) cs t"
        using True dt by simp
      ultimately show ?thesis
        using Cons.IH [OF _ Cons.prems(2)] by simp
    next
      case nd: False
      let ?p = "cur @ [c]"
      show ?thesis
      proof (cases "s ?p")
        case None
        let ?s1 = "s(?p \<mapsto> Dir)"
        have run: "mkdirs ?p cs ?s1 = (None, s')"
          using Cons.prems(1) d triv nd None by simp
        then have "s' ?p = Some Dir"
          using mkdirs_keeps_dir [of ?p cs ?s1 None s' ?p] by simp
        then have Fp: "F ?p = Some Dir"
          using assms(2) kind_le_dir by blast
        have tp: "t ?p = None \<or> t ?p = Some Dir"
          using Cons.prems(2) None Fp unfolding between_def by metis
        show ?thesis
        proof (cases "t ?p")
          case tn: None
          have step: "mkdirs cur (c # cs) t = mkdirs ?p cs (t(?p \<mapsto> Dir))"
            using dt triv nd tn by simp
          have "between ?s1 F (t(?p \<mapsto> Dir))"
            using Cons.prems(2) unfolding between_def by auto
          from Cons.IH [OF run this] show ?thesis
            unfolding step .
        next
          case (Some m)
          then have tpd: "t ?p = Some Dir"
            using tp by simp
          have step: "mkdirs cur (c # cs) t = mkdirs ?p cs t"
            using dt triv nd tpd by simp
          have "between ?s1 F t"
            using Cons.prems(2) tpd unfolding between_def by auto
          from Cons.IH [OF run this] show ?thesis
            unfolding step .
        qed
      next
        case (Some m)
        then have sp: "s ?p = Some Dir" and run: "mkdirs ?p cs s = (None, s')"
          using Cons.prems(1) d triv nd by (cases m; simp)+
        have "s' ?p = Some Dir"
          using mkdirs_keeps_dir [OF run sp] .
        then have "F ?p = Some Dir"
          using assms(2) kind_le_dir by blast
        then have "t ?p = Some Dir"
          using between_dir [OF Cons.prems(2) sp] by simp
        then have step: "mkdirs cur (c # cs) t = mkdirs ?p cs t"
          using dt triv nd by simp
        from Cons.IH [OF run Cons.prems(2)] show ?thesis
          unfolding step .
      qed
    qed
  qed
qed

lemma os_makedirs_grows: "grows (os_makedirs cwd name)"
  unfolding grows_def os_makedirs_def
  using mkdirs_grows kind_le_refl by (auto split: if_splits)

lemma os_makedirs_replays: "replays (os_makedirs cwd name)"
  unfolding replays_def os_makedirs_def
  using mkdirs_replay by (auto split: if_splits)

text \<open>Writing a file.\<close>

lemma write_file_success:
  assumes "write_file cwd path content s = (None, s')"
  shows "s' = s(location_of cwd path \<mapsto> File content)"
    and "s (location_of cwd path) \<noteq> Some Dir"
    and "resolve s cwd path = Inr (location_of cwd path)"
proof -
  from assms obtain q where r: "resolve s cwd path = Inr q"
    by (auto simp: write_file_def split: sum.splits)
  then have "path \<noteq> []" and w: "walk s (start_of cwd path) (split_on CHR ''/'' path) = Inr q"
    by (auto simp: resolve_def split: if_splits)
  then have q: "q = location_of cwd path"
    using walk_locate by (simp add: location_of_def)
  show "resolve s cwd path = Inr (location_of cwd path)"
    using r q by simp
  show "s (location_of cwd path) \<noteq> Some Dir"
    using assms r q by (auto simp: write_file_def)
  show "s' = s(location_of cwd path \<mapsto> File content)"
    using assms r q by (auto simp: write_file_def split: option.splits node.splits)
qed

lemma write_file_failure: "write_file cwd path content s = (Some e, s') \<Longrightarrow> s' = s"
  by (auto simp: write_file_def split: sum.splits option.splits node.splits)

lemma write_file_grows: "grows (write_file cwd path content)"
proof -
  have "kind_le s s'" if "write_file cwd path content s = (r, s')" for s r s'
  proof (cases r)
    case None
    from write_file_success(1,2) [OF that [unfolded None]] show ?thesis
      by (auto simp: kind_le_def files_of_def)
  next
    case (Some e)
    then show ?thesis
      using that write_file_failure kind_le_refl by blast
  qed
  then show ?thesis
    by (auto simp: grows_def)
qed

lemma resolve_mono:
  assumes "resolve s cwd path = Inr q" and "\<And>p. s p = Some Dir \<Longrightarrow> t p = Some Dir"
  shows "resolve t cwd path = Inr q"
  using assms walk_mono [of s _ _ q t] by (auto simp: resolve_def split: if_splits)

lemma write_file_replays: "replays (write_file cwd path content)"
proof -
  have "\<exists>t'. write_file cwd path content t = (None, t') \<and> between s' F t'"
    if run: "write_file cwd path content s = (None, s')" and le: "kind_le s' F"
      and bt: "between s F t" for s s' F t
  proof -
    let ?q = "location_of cwd path"
    note ws = write_file_success [OF run]
    have dirs: "t p = Some Dir" if "s p = Some Dir" for p
    proof -
      have "p \<noteq> ?q" using ws(2) that by auto
      then have "s' p = Some Dir" using ws(1) that by simp
      then have "F p = Some Dir" using le kind_le_dir by blast
      then show ?thesis using between_dir [OF bt that] by simp
    qed
    have rt: "resolve t cwd path = Inr ?q"
      using resolve_mono [OF ws(3)] dirs by blast
    have "s' ?q = Some (File content)"
      using ws(1) by simp
    then obtain y where "F ?q = Some (File y)"
      using le kind_le_file by blast
    then have "t ?q \<noteq> Some Dir"
      using bt ws(2) unfolding between_def by (metis node.distinct(1) option.inject)
    then have "write_file cwd path content t = (None, t(?q \<mapsto> File content))"
      using rt by (auto simp: write_file_def split: option.splits node.splits)
    moreover have "between s' F (t(?q \<mapsto> File content))"
      using bt ws(1) unfolding between_def by auto
    ultimately show ?thesis by blast
  qed
  then show ?thesis
    unfolding replays_def by blast
qed

text \<open>The combinators.\<close>

lemma and_then_success:
  "and_then f g s = (None, s') \<longleftrightarrow> (\<exists>s1. f s = (None, s1) \<and> g s1 = (None, s'))"
  by (auto simp: and_then_def split: prod.splits option.splits)

lemma and_then_grows:
  assumes "grows f" and "grows g"
  shows "grows (and_then f g)"
proof -
  have "kind_le s s'" if "and_then f g s = (r, s')" for s r s'
  proof (cases "f s")
    case (Pair r1 s1)
    then have 1: "kind_le s s1"
      using assms(1) by (auto simp: grows_def)
    show ?thesis
    proof (cases r1)
      case None
      then have "g s1 = (r, s')"
        using that Pair by (simp add: and_then_def)
      then have "kind_le s1 s'"
        using assms(2) by (auto simp: grows_def)
      then show ?thesis using 1 kind_le_trans by blast
    next
      case (Some e)
      then have "s' = s1"
        using that Pair by (simp add: and_then_def)
      then show ?thesis using 1 by simp
    qed
  qed
  then show ?thesis by (auto simp: grows_def)
qed

lemma and_then_replays:
  assumes "replays f" and "replays g" and "grows g"
  shows "replays (and_then f g)"
proof -
  have "\<exists>t'. and_then f g t = (None, t') \<and> between s' F t'"
    if run: "and_then f g s = (None, s')" and le: "kind_le s' F" and bt: "between s F t"
    for s s' F t
  proof -
    from run obtain s1 where f: "f s = (None, s1)" and g: "g s1 = (None, s')"
      by (auto simp: and_then_success)
    have "kind_le s1 s'"
      using g assms(3) by (auto simp: grows_def)
    then have "kind_le s1 F"
      using le kind_le_trans by blast
    then obtain t1 where ft: "f t = (None, t1)" and b1: "between s1 F t1"
      using assms(1) f bt unfolding replays_def by blast
    obtain t' where "g t1 = (None, t')" and "between s' F t'"
      using assms(2) g le b1 unfolding replays_def by blast
    then show ?thesis
      using ft by (auto simp: and_then_def)
  qed
  then show ?thesis
    unfolding replays_def by blast
qed

lemma for_each_as_and_then:
  "for_each body (x # xs) = and_then (body x) (for_each body xs)"
  by (rule ext) (simp add: and_then_def split: prod.splits option.splits)

lemma skip_grows: "grows (\<lambda>fs. (None, fs))"
  by (simp add: grows_def kind_le_refl)

lemma skip_replays: "replays (\<lambda>fs. (None, fs))"
  by (simp add: replays_def)

lemma for_each_Nil: "for_each body [] = (\<lambda>fs. (None, fs))"
  by (rule ext) simp

lemma for_each_grows: "(\<And>x. grows (body x)) \<Longrightarrow> grows (for_each body xs)"
proof (induction xs)
  case Nil
  show ?case by (simp only: for_each_Nil skip_grows)
next
  case (Cons x xs)
  then show ?case
    by (simp only: for_each_as_and_then and_then_grows)
qed

lemma for_each_replays:
  "(\<And>x. grows (body x)) \<Longrightarrow> (\<And>x. replays (body x)) \<Longrightarrow> replays (for_each body xs)"
proof (induction xs)
  case Nil
  show ?case by (simp only: for_each_Nil skip_replays)
next
  case (Cons x xs)
  then show ?case
    by (simp only: for_each_as_and_then and_then_replays for_each_grows)
qed

lemma raise_grows: "grows (raise e)"
  by (simp add: grows_def raise_def kind_le_refl)

lemma raise_replays: "replays (raise e)"
  by (simp add: replays_def raise_def)

lemma eval_then_grows: "(\<And>v. grows (k v)) \<Longrightarrow> grows (eval_then r k)"
  by (cases r) (simp_all add: eval_then_def raise_grows)

lemma eval_then_replays: "(\<And>v. replays (k v)) \<Longrightarrow> replays (eval_then r k)"
  by (cases r) (simp_all add: eval_then_def raise_replays)

text \<open>A replayable action that succeeded changes nothing when it runs again.\<close>

lemma replays_between:
  assumes "replays f" and "f s = (None, F)" and "between s F t"
  shows "f t = (None, F)"
proof -
  obtain t' where t: "f t = (None, t')" and b: "between F F t'"
    using assms kind_le_refl unfolding replays_def by blast
  have "t' = F"
    using b by (auto simp: between_def)
  then show ?thesis using t by simp
qed

lemma replays_idempotent:
  assumes "replays f" and "f s = (None, F)"
  shows "f F = (None, F)"
  using replays_between [OF assms] by (simp add: between_def)

section \<open>The generators grow the state and can be replayed\<close>

lemma create_project_structure_grows: "grows (create_project_structure cwd base_dir structure)"
  unfolding create_project_structure_def
  by (rule for_each_grows)
    (auto simp: Let_def split: prod.splits intro!: and_then_grows for_each_grows os_makedirs_grows)

lemma create_project_structure_replays:
  "replays (create_project_structure cwd base_dir structure)"
  unfolding create_project_structure_def
  by (rule for_each_replays)
    (auto simp: Let_def split: prod.splits
      intro!: and_then_grows for_each_grows os_makedirs_grows
        and_then_replays for_each_replays os_makedirs_replays)

lemma generate_component_grows: "grows (generate_component cwd component output_dir)"
  unfolding generate_component_def Let_def
  by (intro eval_then_grows and_then_grows os_makedirs_grows write_file_grows)

lemma generate_component_replays: "replays (generate_component cwd component output_dir)"
  unfolding generate_component_def Let_def
  by (intro eval_then_replays and_then_replays os_makedirs_replays write_file_replays
      write_file_grows)

lemma generate_theme_grows: "grows (generate_theme cwd theme output_dir)"
  unfolding generate_theme_def Let_def
  by (intro eval_then_grows and_then_grows os_makedirs_grows write_file_grows)

lemma generate_theme_replays: "replays (generate_theme cwd theme output_dir)"
  unfolding generate_theme_def Let_def
  by (intro eval_then_replays and_then_replays os_makedirs_replays write_file_replays
      write_file_grows)

lemma generate_index_js_grows: "grows (generate_index_js cwd output_dir)"
  unfolding generate_index_js_def Let_def
  by (intro and_then_grows os_makedirs_grows write_file_grows)

lemma generate_index_js_replays: "replays (generate_index_js cwd output_dir)"
  unfolding generate_index_js_def Let_def
  by (intro and_then_replays os_makedirs_replays write_file_replays write_file_grows)

lemma generate_app_js_grows: "grows (generate_app_js cwd output_dir)"
  unfolding generate_app_js_def Let_def
  by (intro and_then_grows os_makedirs_grows write_file_grows)

lemma generate_app_js_replays: "replays (generate_app_js cwd output_dir)"
  unfolding generate_app_js_def Let_def
  by (intro and_then_replays os_makedirs_replays write_file_replays write_file_grows)

lemma generate_package_json_grows: "grows (generate_package_json cwd output_dir)"
  unfolding generate_package_json_def by (rule write_file_grows)

lemma generate_package_json_replays: "replays (generate_package_json cwd output_dir)"
  unfolding generate_package_json_def by (rule write_file_replays)

lemmas generators_grow =
  create_project_structure_grows generate_component_grows generate_theme_grows
  generate_index_js_grows generate_app_js_grows generate_package_json_grows

lemmas generators_replay =
  create_project_structure_replays generate_component_replays generate_theme_replays
  generate_index_js_replays generate_app_js_replays generate_package_json_replays

lemma main_create_grows: "grows (main_create cwd config output_input)"
  unfolding main_create_def Let_def
  by (auto intro!: skip_grows and_then_grows eval_then_grows for_each_grows generators_grow)

lemma main_create_replays: "replays (main_create cwd config output_input)"
  unfolding main_create_def Let_def
  by (auto intro!: skip_replays and_then_replays eval_then_replays for_each_replays
      generators_replay and_then_grows eval_then_grows for_each_grows generators_grow)

section \<open>Directory creation by the structure builder\<close>

lemma dirs_only_os_makedirs: "dirs_only (os_makedirs cwd name)"
  unfolding dirs_only_def os_makedirs_def
  using mkdirs_frame by (auto split: if_splits)

lemma dirs_only_skip: "dirs_only (\<lambda>fs. (None, fs))"
  by (simp add: dirs_only_def)

lemma dirs_only_and_then:
  assumes "dirs_only f" and "dirs_only g"
  shows "dirs_only (and_then f g)"
proof -
  have "s' p = s p \<or> (s p = None \<and> s' p = Some Dir)"
    if run: "and_then f g s = (r, s')" for s r s' p
  proof (cases "f s")
    case (Pair r1 s1)
    then have 1: "s1 p = s p \<or> (s p = None \<and> s1 p = Some Dir)"
      using assms(1) unfolding dirs_only_def by blast
    show ?thesis
    proof (cases r1)
      case None
      then have "g s1 = (r, s')"
        using run Pair by (simp add: and_then_def)
      then have "s' p = s1 p \<or> (s1 p = None \<and> s' p = Some Dir)"
        using assms(2) unfolding dirs_only_def by blast
      then show ?thesis using 1 by auto
    next
      case (Some e)
      then have "s' = s1"
        using run Pair by (simp add: and_then_def)
      then show ?thesis using 1 by simp
    qed
  qed
  then show ?thesis
    unfolding dirs_only_def by blast
qed

lemma dirs_only_for_each: "(\<And>x. dirs_only (body x)) \<Longrightarrow> dirs_only (for_each body xs)"
proof (induction xs)
  case Nil
  show ?case by (simp only: for_each_Nil dirs_only_skip)
next
  case (Cons x xs)
  then show ?case
    by (simp only: for_each_as_and_then dirs_only_and_then)
qed

lemma create_project_structure_dirs_only:
  "dirs_only (create_project_structure cwd base_dir structure)"
  unfolding create_project_structure_def
  by (rule dirs_only_for_each)
    (auto simp: Let_def split: prod.splits
      intro!: dirs_only_and_then dirs_only_for_each dirs_only_os_makedirs)

text \<open>What a loop body establishes, and later steps keep, holds after the loop.\<close>

lemma for_each_post:
  assumes "for_each body xs s = (None, s')"
    and "\<And>y. grows (body y)"
    and "\<And>u u'. body x u = (None, u') \<Longrightarrow> Q u'"
    and "\<And>u u'. Q u \<Longrightarrow> kind_le u u' \<Longrightarrow> Q u'"
    and "x \<in> set xs"
  shows "Q s'"
  using assms(1,5)
proof (induction xs arbitrary: s)
  case Nil
  then show ?case by simp
next
  case (Cons y ys)
  from Cons.prems(1) obtain s1 where 1: "body y s = (None, s1)"
    and 2: "for_each body ys s1 = (None, s')"
    by (auto split: prod.splits option.splits)
  show ?case
  proof (cases "x \<in> set ys")
    case True
    then show ?thesis using Cons.IH [OF 2] by simp
  next
    case False
    then have "x = y" using Cons.prems(2) by simp
    then have "Q s1" using 1 assms(3) by blast
    moreover have "kind_le s1 s'"
      using 2 for_each_grows [of body ys, OF assms(2)] unfolding grows_def by blast
    ultimately show ?thesis using assms(4) by blast
  qed
qed

lemma last_split_join_step:
  assumes "plain_name b"
  shows "split_on CHR ''/'' (join_step a b) \<noteq> []"
    and "last (split_on CHR ''/'' (join_step a b)) = b"
  by (simp_all add: split_join_step [OF assms])

lemma os_makedirs_join_dir:
  assumes "os_makedirs cwd (os_path_join a (bs @ [b])) s = (None, s')"
    and "list_all plain_name bs" and "plain_name b"
  shows "s' (location_of cwd a @ bs @ [b]) = Some Dir"
proof -
  let ?name = "os_path_join a (bs @ [b])"
  have name: "?name = join_step (os_path_join a bs) b"
    by (rule os_path_join_snoc)
  from assms(1) have run: "mkdirs (start_of cwd ?name) (split_on CHR ''/'' ?name) s = (None, s')"
    by (auto simp: os_makedirs_def split: if_splits)
  have "s' (locate (start_of cwd ?name) (split_on CHR ''/'' ?name)) = Some Dir"
    using run
  proof (rule mkdirs_final_dir)
    show "split_on CHR ''/'' ?name \<noteq> []"
      unfolding name by (rule last_split_join_step(1) [OF assms(3)])
    show "plain_name (last (split_on CHR ''/'' ?name))"
      unfolding name using assms(3) by (simp only: last_split_join_step(2) [OF assms(3)])
  qed
  then have "s' (location_of cwd ?name) = Some Dir"
    by (simp add: location_of_def)
  moreover have "location_of cwd ?name = location_of cwd a @ bs @ [b]"
    using location_of_join [of "bs @ [b]" cwd a] assms(2,3) by simp
  ultimately show ?thesis by simp
qed

lemma create_project_structure_dirs:
  assumes "create_project_structure cwd base_dir structure fs = (None, fs')"
    and "(folder, subfolders) \<in> set structure"
    and "plain_name folder" and "list_all plain_name subfolders"
  shows "fs' (location_of cwd base_dir @ [folder]) = Some Dir"
    and "\<forall>sub \<in> set subfolders. fs' (location_of cwd base_dir @ [folder, sub]) = Some Dir"
proof -
  let ?R = "location_of cwd base_dir"
  let ?inner = "\<lambda>folder_path subfolder. os_makedirs cwd (os_path_join folder_path [subfolder])"
  let ?body = "\<lambda>(folder, subfolders).
       let folder_path = os_path_join base_dir [folder]
       in and_then (os_makedirs cwd folder_path) (for_each (?inner folder_path) subfolders)"
  let ?Q = "\<lambda>u. u (?R @ [folder]) = Some Dir \<and>
      (\<forall>sub \<in> set subfolders. u (?R @ [folder, sub]) = Some Dir)"
  have run: "for_each ?body structure fs = (None, fs')"
    using assms(1) by (simp add: create_project_structure_def)
  have g: "grows (?body y)" for y
    by (cases y) (auto simp: Let_def intro!: and_then_grows for_each_grows os_makedirs_grows)
  have keep: "?Q u'" if "?Q u" and "kind_le u u'" for u u'
    using that kind_le_dir by blast
  have est: "?Q u'" if b: "?body (folder, subfolders) u = (None, u')" for u u'
  proof -
    let ?fp = "os_path_join base_dir [folder]"
    from b obtain u1 where 1: "os_makedirs cwd ?fp u = (None, u1)"
      and 2: "for_each (?inner ?fp) subfolders u1 = (None, u')"
      by (auto simp: Let_def and_then_success)
    have le: "kind_le u1 u'"
      using 2 for_each_grows [of "?inner ?fp" subfolders, OF os_makedirs_grows]
      unfolding grows_def by blast
    have "u1 (?R @ [folder]) = Some Dir"
      using os_makedirs_join_dir [of cwd base_dir "[]" folder u u1] 1 assms(3) by simp
    then have A: "u' (?R @ [folder]) = Some Dir"
      using le kind_le_dir by blast
    have B: "u' (?R @ [folder, sub]) = Some Dir" if sub: "sub \<in> set subfolders" for sub
    proof -
      have ps: "plain_name sub"
        using assms(4) sub by (simp add: list_all_iff)
      have jp: "os_path_join ?fp [sub] = os_path_join base_dir ([folder] @ [sub])"
        by (simp add: os_path_join_def)
      have "v' (?R @ [folder] @ [sub]) = Some Dir"
        if "?inner ?fp sub v = (None, v')" for v v'
        using os_makedirs_join_dir [of cwd base_dir "[folder]" sub v v'] that assms(3) ps
        unfolding jp by simp
      then have "u' (?R @ [folder] @ [sub]) = Some Dir"
        using for_each_post [of "?inner ?fp" subfolders u1 u' sub
            "\<lambda>w. w (?R @ [folder] @ [sub]) = Some Dir", OF 2 os_makedirs_grows _ _ sub]
          kind_le_dir by blast
      then show ?thesis by simp
    qed
    show ?thesis using A B by blast
  qed
  have "?Q fs'"
    using for_each_post [of ?body "structure" fs fs' "(folder, subfolders)" ?Q, OF run g _ _ assms(2)]
      est keep by blast
  then show "fs' (?R @ [folder]) = Some Dir"
    and "\<forall>sub \<in> set subfolders. fs' (?R @ [folder, sub]) = Some Dir"
    by blast+
qed

section \<open>Rendering and the effect of the generators\<close>

lemma py_str_PStr: "py_str (PStr s) = s"
  by (simp add: py_str_def)

lemma format_component:
  "py_format component_template [(''name'', PStr name), (''title'', title)] =
     Inr (rendered_component name (py_str title))"
  by (simp add: py_format_def component_template_def rendered_component_def py_str_PStr)

lemma format_theme:
  "py_format theme_template
     [(''mode'', mode), (''primaryColor'', primaryColor), (''secondaryColor'', secondaryColor)] =
     Inr (rendered_theme (py_str mode) (py_str primaryColor) (py_str secondaryColor))"
  by (simp add: py_format_def theme_template_def rendered_theme_def)

lemma effect_at:
  assumes "effect s W s'"
  shows "case W p of
           Some content \<Rightarrow> s' p = Some (File content)
         | None \<Rightarrow> s' p = s p \<or> (s p = None \<and> s' p = Some Dir)"
  using assms unfolding effect_def by (rule spec)

lemma effect_None:
  "effect s W s' \<Longrightarrow> W p = None \<Longrightarrow> s' p = s p \<or> (s p = None \<and> s' p = Some Dir)"
  using effect_at [of s W s' p] by simp

lemma effect_content: "effect s W s' \<Longrightarrow> W p = Some x \<Longrightarrow> s' p = Some (File x)"
  using effect_at [of s W s' p] by simp

lemma effectI:
  assumes "\<And>p. W p = None \<Longrightarrow> s' p = s p \<or> (s p = None \<and> s' p = Some Dir)"
    and "\<And>p x. W p = Some x \<Longrightarrow> s' p = Some (File x)"
  shows "effect s W s'"
  using assms by (auto simp: effect_def split: option.splits)

lemma effect_refl: "effect s Map.empty s"
  by (simp add: effect_def)

lemma effect_trans:
  assumes "effect a W1 b" and "effect b W2 c"
  shows "effect a (W1 ++ W2) c"
proof (rule effectI)
  fix p
  assume n: "(W1 ++ W2) p = None"
  then have n1: "W1 p = None" and n2: "W2 p = None"
    by (simp_all add: map_add_None)
  from effect_None [OF assms(1) n1] effect_None [OF assms(2) n2]
  show "c p = a p \<or> (a p = None \<and> c p = Some Dir)"
    by auto
next
  fix p x
  assume s: "(W1 ++ W2) p = Some x"
  show "c p = Some (File x)"
  proof (cases "W2 p")
    case None
    then have "W1 p = Some x"
      using s by (simp add: map_add_def)
    then have "b p = Some (File x)"
      using assms(1) by (rule effect_content [rotated])
    then show ?thesis
      using effect_None [OF assms(2) None] by auto
  next
    case (Some y)
    then have "y = x"
      using s by (simp add: map_add_def)
    then show ?thesis
      using effect_content [OF assms(2) Some] by simp
  qed
qed

lemma effect_files:
  assumes "effect s W s'"
  shows "files_of s' = files_of s \<union> dom W"
proof -
  have "p \<in> files_of s' \<longleftrightarrow> p \<in> files_of s \<or> p \<in> dom W" for p
  proof (cases "W p")
    case None
    from effect_None [OF assms None] show ?thesis
      using None unfolding files_of_def by (cases "s p") auto
  next
    case (Some x)
    from effect_content [OF assms Some] show ?thesis
      using Some by (auto simp: files_of_def)
  qed
  then show ?thesis by blast
qed

lemma os_makedirs_effect: "os_makedirs cwd d s = (r, s') \<Longrightarrow> effect s Map.empty s'"
  using dirs_only_os_makedirs [of cwd d] unfolding dirs_only_def effect_def by simp

lemma write_file_effect:
  assumes "write_file cwd path content s = (None, s')"
  shows "effect s [location_of cwd path \<mapsto> content] s'"
  using write_file_success(1) [OF assms] by (simp add: effect_def)

lemma makedirs_write_effect:
  assumes "and_then (os_makedirs cwd d) (write_file cwd path content) s = (None, s')"
  shows "effect s [location_of cwd path \<mapsto> content] s'"
proof -
  from assms obtain s1 where 1: "os_makedirs cwd d s = (None, s1)"
    and 2: "write_file cwd path content s1 = (None, s')"
    by (auto simp: and_then_success)
  from effect_trans [OF os_makedirs_effect [OF 1] write_file_effect [OF 2]]
  show ?thesis by simp
qed

lemma plain_fixed_names:
  "plain_name ''src''" "plain_name ''components''" "plain_name ''themes''"
  "plain_name ''index.js''" "plain_name ''App.js''" "plain_name ''theme.js''"
  "plain_name ''package.json''"
  by (simp_all add: plain_name_def)

lemma generate_index_js_effect:
  assumes "generate_index_js cwd output_dir s = (None, s')"
  shows "effect s [location_of cwd output_dir @ [''src'', ''index.js''] \<mapsto> index_js_content] s'"
proof -
  let ?p = "os_path_join output_dir [''src'', ''index.js'']"
  have loc: "location_of cwd ?p = location_of cwd output_dir @ [''src'', ''index.js'']"
    by (rule location_of_join) (simp add: plain_fixed_names)
  from assms have "and_then (os_makedirs cwd (os_path_dirname ?p))
      (write_file cwd ?p index_js_content) s = (None, s')"
    by (simp add: generate_index_js_def Let_def)
  from makedirs_write_effect [OF this] show ?thesis
    by (simp only: loc)
qed

lemma generate_app_js_effect:
  assumes "generate_app_js cwd output_dir s = (None, s')"
  shows "effect s [location_of cwd output_dir @ [''src'', ''App.js''] \<mapsto> app_js_content] s'"
proof -
  let ?p = "os_path_join output_dir [''src'', ''App.js'']"
  have loc: "location_of cwd ?p = location_of cwd output_dir @ [''src'', ''App.js'']"
    by (rule location_of_join) (simp add: plain_fixed_names)
  from assms have "and_then (os_makedirs cwd (os_path_dirname ?p))
      (write_file cwd ?p app_js_content) s = (None, s')"
    by (simp add: generate_app_js_def Let_def)
  from makedirs_write_effect [OF this] show ?thesis
    by (simp only: loc)
qed

lemma generate_package_json_effect:
  assumes "generate_package_json cwd output_dir s = (None, s')"
  shows "effect s [location_of cwd output_dir @ [''package.json''] \<mapsto> package_json_content] s'"
proof -
  let ?p = "os_path_join output_dir [''package.json'']"
  have loc: "location_of cwd ?p = location_of cwd output_dir @ [''package.json'']"
    by (rule location_of_join) (simp add: plain_fixed_names)
  from assms have "write_file cwd ?p package_json_content s = (None, s')"
    by (simp add: generate_package_json_def)
  from write_file_effect [OF this] show ?thesis
    by (simp only: loc)
qed

section \<open>The component and theme generators\<close>

lemma generate_component_run:
  assumes "generate_component cwd (PDict c) output_dir s = (None, s')"
  shows "\<exists>i. map_of c ''id'' = Some (PStr i) \<and>
           and_then (os_makedirs cwd (os_path_dirname (component_file_path output_dir (PStr i))))
             (write_file cwd (component_file_path output_dir (PStr i))
                (rendered_component (capitalize i) (py_str (component_title c)))) s = (None, s')"
proof (cases "map_of c ''id''")
  case None
  then show ?thesis
    using assms by (simp add: generate_component_def eval_then_def raise_def)
next
  case (Some v)
  show ?thesis
  proof (cases "\<exists>i. v = PStr i")
    case False
    then have "py_capitalize v = Inl AttributeError"
      by (cases v) auto
    then show ?thesis
      using assms Some by (simp add: generate_component_def eval_then_def raise_def)
  next
    case True
    then obtain i where v: "v = PStr i" by blast
    show ?thesis
    proof (cases "map_of c ''options''")
      case None
      then have t: "component_title c = PStr ''Component''"
        by (simp add: component_title_def)
      show ?thesis
        using assms Some v None
        by (simp add: generate_component_def eval_then_def raise_def Let_def format_component t)
    next
      case so: (Some ov)
      show ?thesis
      proof (cases "\<exists>opts. ov = PDict opts")
        case False
        then have "py_get ov ''title'' (PStr ''Component'') = Inl AttributeError"
          by (cases ov) auto
        then show ?thesis
          using assms Some v so by (simp add: generate_component_def eval_then_def raise_def)
      next
        case True
        then obtain opts where ov: "ov = PDict opts" by blast
        show ?thesis
        proof (cases "map_of opts ''title''")
          case None
          then have t: "component_title c = PStr ''Component''"
            using so ov by (simp add: component_title_def)
          show ?thesis
            using assms Some v so ov None
            by (simp add: generate_component_def eval_then_def raise_def Let_def
                format_component t)
        next
          case st: (Some tv)
          then have t: "component_title c = tv"
            using so ov by (simp add: component_title_def)
          show ?thesis
            using assms Some v so ov st
            by (simp add: generate_component_def eval_then_def raise_def Let_def
                format_component t)
        qed
      qed
    qed
  qed
qed

lemma generate_component_effect:
  assumes "generate_component cwd (PDict c) output_dir s = (None, s')"
  shows "\<exists>i. map_of c ''id'' = Some (PStr i) \<and>
           effect s [location_of cwd (component_file_path output_dir (PStr i)) \<mapsto>
                       rendered_component (capitalize i) (py_str (component_title c))] s'"
  using generate_component_run [OF assms] makedirs_write_effect by blast

lemma plain_js_name:
  assumes "CHR ''/'' \<notin> set i"
  shows "plain_name (i @ ''.js'')"
proof -
  have "length (i @ ''.js'') \<ge> 3"
    by simp
  then have "i @ ''.js'' \<noteq> []" "i @ ''.js'' \<noteq> ''.''" "i @ ''.js'' \<noteq> ''..''"
    by (auto dest: arg_cong [where f = length])
  then show ?thesis
    using assms by (simp add: plain_name_def)
qed

lemma component_location:
  assumes "CHR ''/'' \<notin> set i"
  shows "location_of cwd (component_file_path output_dir (PStr i)) =
           location_of cwd output_dir @ [''src'', ''components'', i @ ''.js'']"
  unfolding component_file_path_def py_str_PStr
  by (rule location_of_join) (simp add: plain_fixed_names plain_js_name [OF assms])

lemma generate_theme_run:
  "generate_theme cwd (PDict theme) output_dir =
     and_then (os_makedirs cwd (os_path_dirname (os_path_join output_dir [''src'', ''themes'', ''theme.js''])))
       (write_file cwd (os_path_join output_dir [''src'', ''themes'', ''theme.js''])
          (rendered_theme (theme_value theme ''mode'' ''light'')
             (theme_value theme ''primaryColor'' ''#1976d2'')
             (theme_value theme ''secondaryColor'' ''#ff4081'')))"
proof -
  have v: "py_str (case map_of theme k of None \<Rightarrow> PStr d | Some v \<Rightarrow> v) = theme_value theme k d"
    for k d
    by (simp add: theme_value_def py_str_PStr split: option.splits)
  have g: "py_get (PDict theme) k (PStr d) = Inr (case map_of theme k of None \<Rightarrow> PStr d | Some v \<Rightarrow> v)"
    for k d
    by (simp split: option.splits)
  show ?thesis
    by (simp add: generate_theme_def g eval_then_def format_theme v Let_def del: py_get.simps)
qed

lemma generate_theme_effect:
  assumes "generate_theme cwd (PDict theme) output_dir s = (None, s')"
  shows "effect s [location_of cwd output_dir @ [''src'', ''themes'', ''theme.js''] \<mapsto>
                     rendered_theme (theme_value theme ''mode'' ''light'')
                       (theme_value theme ''primaryColor'' ''#1976d2'')
                       (theme_value theme ''secondaryColor'' ''#ff4081'')] s'"
proof -
  let ?p = "os_path_join output_dir [''src'', ''themes'', ''theme.js'']"
  have loc: "location_of cwd ?p = location_of cwd output_dir @ [''src'', ''themes'', ''theme.js'']"
    by (rule location_of_join) (simp add: plain_fixed_names)
  from makedirs_write_effect [OF assms [unfolded generate_theme_run]] show ?thesis
    by (simp only: loc)
qed

section \<open>The effect of a whole run\<close>

lemma components_effect:
  assumes "list_all2 (\<lambda>c i. \<exists>d. c = PDict d \<and> map_of d ''id'' = Some (PStr i)) cs ids"
    and "for_each (\<lambda>c. generate_component cwd c output_dir) cs s = (None, s')"
    and "\<forall>i \<in> set ids. CHR ''/'' \<notin> set i"
  shows "\<exists>W. effect s W s' \<and>
           dom W = (\<lambda>i. location_of cwd output_dir @ [''src'', ''components'', i @ ''.js'']) ` set ids"
  using assms
proof (induction arbitrary: s rule: list_all2_induct)
  case Nil
  then have "s' = s" by simp
  then show ?case
    using effect_refl [of s] by auto
next
  case (Cons c cs i ids)
  let ?loc = "\<lambda>i. location_of cwd output_dir @ [''src'', ''components'', i @ ''.js'']"
  from Cons.hyps(1) obtain d where c: "c = PDict d" and cid: "map_of d ''id'' = Some (PStr i)"
    by blast
  from Cons.prems(1) obtain s1 where 1: "generate_component cwd c output_dir s = (None, s1)"
    and 2: "for_each (\<lambda>c. generate_component cwd c output_dir) cs s1 = (None, s')"
    by (auto split: prod.splits option.splits)
  have pi: "CHR ''/'' \<notin> set i"
    using Cons.prems(2) by simp
  from generate_component_effect [OF 1 [unfolded c]] cid
  obtain x where e1: "effect s [location_of cwd (component_file_path output_dir (PStr i)) \<mapsto> x] s1"
    by auto
  then have e1': "effect s [?loc i \<mapsto> x] s1"
    by (simp only: component_location [OF pi])
  from Cons.IH [OF 2] Cons.prems(2) obtain W where e2: "effect s1 W s'"
    and dW: "dom W = ?loc ` set ids"
    by auto
  have "effect s ([?loc i \<mapsto> x] ++ W) s'"
    using effect_trans [OF e1' e2] .
  moreover have "dom ([?loc i \<mapsto> x] ++ W) = ?loc ` set (i # ids)"
    using dW by auto
  ultimately show ?case by blast
qed

lemma main_create_unfold:
  assumes "map_of m ''components'' = Some (PList cs)"
  shows "main_create cwd (PDict m) output_input =
     (let output_dir = (if output_input = [] then ''./output'' else output_input)
      in and_then (create_project_structure cwd output_dir PROJECT_STRUCTURE)
          (and_then (generate_index_js cwd output_dir)
          (and_then (generate_app_js cwd output_dir)
          (and_then (generate_package_json cwd output_dir)
          (and_then (for_each (\<lambda>component. generate_component cwd component output_dir) cs)
             (generate_theme cwd
                (case map_of m ''theme'' of None \<Rightarrow> PDict [] | Some v \<Rightarrow> v) output_dir))))))"
proof -
  have "m \<noteq> []"
    using assms by auto
  then show ?thesis
    using assms
    by (simp add: main_create_def eval_then_def Let_def split: option.splits)
qed

lemma generate_theme_needs_dict:
  assumes "generate_theme cwd v output_dir s = (None, s')"
  shows "\<exists>theme. v = PDict theme"
proof (rule ccontr)
  assume "\<not> ?thesis"
  then have "py_get v ''mode'' (PStr ''light'') = Inl AttributeError"
    by (cases v) auto
  then show False
    using assms by (simp add: generate_theme_def eval_then_def raise_def)
qed

lemma and_then_chain:
  assumes "and_then a (and_then b (and_then c (and_then d (and_then e f)))) s = (None, s')"
  shows "\<exists>s1 s2 s3 s4 s5. a s = (None, s1) \<and> b s1 = (None, s2) \<and> c s2 = (None, s3) \<and>
           d s3 = (None, s4) \<and> e s4 = (None, s5) \<and> f s5 = (None, s')"
  using assms unfolding and_then_success by blast

lemma map_add_single_other: "p \<noteq> q \<Longrightarrow> (f ++ [q \<mapsto> c]) p = f p"
  by (simp add: map_add_def)

lemma map_add_single_same: "(f ++ [p \<mapsto> c]) p = Some c"
  by (simp add: map_add_def)

lemma map_add_absent: "g p = None \<Longrightarrow> (f ++ g) p = f p"
  by (simp add: map_add_def)

lemma dom_single: "dom [p \<mapsto> c] = {p}"
  by simp

lemma six_effects:
  assumes "effect s Map.empty s1" and "effect s1 [pi \<mapsto> ci] s2" and "effect s2 [pa \<mapsto> ca] s3"
    and "effect s3 [pp \<mapsto> cp] s4" and "effect s4 Wc s5" and "effect s5 [pt \<mapsto> ct] s'"
    and "pi \<notin> dom Wc" and "pa \<notin> dom Wc" and "pp \<notin> dom Wc"
    and "distinct [pi, pa, pp, pt]"
  shows "\<exists>W. effect s W s' \<and> dom W = {pp, pi, pa, pt} \<union> dom Wc \<and>
           W pi = Some ci \<and> W pa = Some ca \<and> W pp = Some cp"
proof -
  define W1 where "W1 = Map.empty ++ [pi \<mapsto> ci]"
  define W2 where "W2 = W1 ++ [pa \<mapsto> ca]"
  define W3 where "W3 = W2 ++ [pp \<mapsto> cp]"
  define W4 where "W4 = W3 ++ Wc"
  define W5 where "W5 = W4 ++ [pt \<mapsto> ct]"
  have d: "pi \<noteq> pa" "pi \<noteq> pp" "pi \<noteq> pt" "pa \<noteq> pp" "pa \<noteq> pt" "pp \<noteq> pt"
    using assms(10) by simp_all
  have n: "Wc pi = None" "Wc pa = None" "Wc pp = None"
    using assms(7,8,9) by (simp_all add: domIff)
  have eff: "effect s W5 s'"
    unfolding W5_def W4_def W3_def W2_def W1_def
    by (rule effect_trans [OF effect_trans [OF effect_trans [OF effect_trans
      [OF effect_trans [OF assms(1) assms(2)] assms(3)] assms(4)] assms(5)] assms(6)])
  have "dom W1 = {pi}"
    unfolding W1_def dom_map_add dom_single by simp
  then have "dom W2 = {pa, pi}"
    unfolding W2_def dom_map_add dom_single by auto
  then have "dom W3 = {pp, pa, pi}"
    unfolding W3_def dom_map_add dom_single by auto
  then have "dom W4 = dom Wc \<union> {pp, pa, pi}"
    unfolding W4_def dom_map_add by auto
  then have "dom W5 = {pt} \<union> (dom Wc \<union> {pp, pa, pi})"
    unfolding W5_def dom_map_add dom_single by auto
  then have dom: "dom W5 = {pp, pi, pa, pt} \<union> dom Wc"
    by blast
  have i1: "W1 pi = Some ci"
    unfolding W1_def by (rule map_add_single_same)
  have i2: "W2 pi = Some ci"
    unfolding W2_def using i1 d by (simp add: map_add_single_other)
  have i3: "W3 pi = Some ci"
    unfolding W3_def using i2 d by (simp add: map_add_single_other)
  have i4: "W4 pi = Some ci"
    unfolding W4_def using i3 n by (simp add: map_add_absent)
  have i5: "W5 pi = Some ci"
    unfolding W5_def using i4 d by (simp add: map_add_single_other)
  have a2: "W2 pa = Some ca"
    unfolding W2_def by (rule map_add_single_same)
  have a3: "W3 pa = Some ca"
    unfolding W3_def using a2 d by (simp add: map_add_single_other)
  have a4: "W4 pa = Some ca"
    unfolding W4_def using a3 n by (simp add: map_add_absent)
  have a5: "W5 pa = Some ca"
    unfolding W5_def using a4 d by (simp add: map_add_single_other)
  have p3: "W3 pp = Some cp"
    unfolding W3_def by (rule map_add_single_same)
  have p4: "W4 pp = Some cp"
    unfolding W4_def using p3 n by (simp add: map_add_absent)
  have p5: "W5 pp = Some cp"
    unfolding W5_def using p4 d by (simp add: map_add_single_other)
  show ?thesis
    using eff dom i5 a5 p5 by blast
qed

lemma main_create_effect:
  assumes run: "main_create cwd (PDict m) output_input s = (None, s')"
    and comps: "map_of m ''components'' = Some (PList cs)"
    and ids: "list_all2 (\<lambda>c i. \<exists>d. c = PDict d \<and> map_of d ''id'' = Some (PStr i)) cs ids"
    and plain: "\<forall>i \<in> set ids. CHR ''/'' \<notin> set i"
    and R: "R = location_of cwd (if output_input = [] then ''./output'' else output_input)"
  shows "\<exists>W. effect s W s' \<and>
           dom W = {R @ [''package.json''], R @ [''src'', ''index.js''], R @ [''src'', ''App.js''],
                    R @ [''src'', ''themes'', ''theme.js'']} \<union>
                   (\<lambda>i. R @ [''src'', ''components'', i @ ''.js'']) ` set ids \<and>
           W (R @ [''src'', ''index.js'']) = Some index_js_content \<and>
           W (R @ [''src'', ''App.js'']) = Some app_js_content \<and>
           W (R @ [''package.json'']) = Some package_json_content"
proof -
  let ?out = "if output_input = [] then ''./output'' else output_input"
  let ?tv = "case map_of m ''theme'' of None \<Rightarrow> PDict [] | Some v \<Rightarrow> v"
  let ?cl = "\<lambda>i. R @ [''src'', ''components'', i @ ''.js'']"
  from and_then_chain [OF run [unfolded main_create_unfold [OF comps] Let_def]]
  obtain s1 s2 s3 s4 s5 where
    1: "create_project_structure cwd ?out PROJECT_STRUCTURE s = (None, s1)" and
    2: "generate_index_js cwd ?out s1 = (None, s2)" and
    3: "generate_app_js cwd ?out s2 = (None, s3)" and
    4: "generate_package_json cwd ?out s3 = (None, s4)" and
    5: "for_each (\<lambda>component. generate_component cwd component ?out) cs s4 = (None, s5)" and
    6: "generate_theme cwd ?tv ?out s5 = (None, s')"
    by blast
  obtain theme where tv: "?tv = PDict theme"
    using generate_theme_needs_dict [OF 6] by blast
  have e1: "effect s Map.empty s1"
    using create_project_structure_dirs_only 1 unfolding dirs_only_def effect_def by simp
  note e2 = generate_index_js_effect [OF 2, folded R]
  note e3 = generate_app_js_effect [OF 3, folded R]
  note e4 = generate_package_json_effect [OF 4, folded R]
  from components_effect [OF ids 5 plain, folded R] obtain Wc where e5: "effect s4 Wc s5"
    and dWc: "dom Wc = ?cl ` set ids"
    by blast
  note e6 = generate_theme_effect [OF 6 [unfolded tv], folded R]
  have nc: "R @ [''src'', ''index.js''] \<notin> dom Wc" "R @ [''src'', ''App.js''] \<notin> dom Wc"
    "R @ [''package.json''] \<notin> dom Wc"
    unfolding dWc by auto
  have di: "distinct [R @ [''src'', ''index.js''], R @ [''src'', ''App.js''], R @ [''package.json''],
      R @ [''src'', ''themes'', ''theme.js'']]"
    by simp
  from six_effects [OF e1 e2 e3 e4 e5 e6 nc di] show ?thesis
    unfolding dWc .
qed

section \<open>Writing into a directory that exists\<close>


section \<open>Generating a component again\<close>

lemma generate_component_valid:
  assumes "map_of c ''id'' = Some (PStr i)"
    and "map_of c ''options'' = None \<or> (\<exists>opts. map_of c ''options'' = Some (PDict opts))"
  shows "generate_component cwd (PDict c) output_dir =
     and_then (os_makedirs cwd (os_path_dirname (component_file_path output_dir (PStr i))))
       (write_file cwd (component_file_path output_dir (PStr i))
          (rendered_component (capitalize i) (py_str (component_title c))))"
proof -
  have "py_get (PDict c) ''options'' (PDict []) = Inr (PDict [])
      \<and> component_title c = PStr ''Component''
    \<or> (\<exists>opts. py_get (PDict c) ''options'' (PDict []) = Inr (PDict opts)
      \<and> component_title c = (case map_of opts ''title'' of Some t \<Rightarrow> t | None \<Rightarrow> PStr ''Component''))"
    using assms(2) by (auto simp: component_title_def)
  then show ?thesis
    using assms(1)
    by (auto simp: generate_component_def eval_then_def Let_def format_component
        split: option.splits)
qed

lemma makedirs_write_again:
  assumes "and_then (os_makedirs cwd dn) (write_file cwd p c1) s = (None, s1)"
  shows "and_then (os_makedirs cwd dn) (write_file cwd p c2) s1 =
           (None, s1(location_of cwd p \<mapsto> File c2))"
proof -
  let ?q = "location_of cwd p"
  from assms obtain sm where mk: "os_makedirs cwd dn s = (None, sm)"
    and wr: "write_file cwd p c1 sm = (None, s1)"
    by (auto simp: and_then_success)
  note ws = write_file_success [OF wr]
  have le: "kind_le sm s1"
    using write_file_grows wr unfolding grows_def by blast
  have "between s s1 s1"
    by (simp add: between_def)
  then obtain t' where mk1: "os_makedirs cwd dn s1 = (None, t')" and bt: "between sm s1 t'"
    using os_makedirs_replays mk le unfolding replays_def by blast
  have fr: "t' x = s1 x \<or> (s1 x = None \<and> t' x = Some Dir)" for x
    using dirs_only_os_makedirs mk1 unfolding dirs_only_def by blast
  have "t' x = s1 x" for x
  proof (cases "x = ?q")
    case True
    then have "s1 x = Some (File c1)"
      using ws(1) by simp
    then show ?thesis
      using fr [of x] by auto
  next
    case False
    then have "sm x = s1 x"
      using ws(1) by simp
    then show ?thesis
      using bt unfolding between_def by metis
  qed
  then have t': "t' = s1"
    by (rule ext)
  have "resolve s1 cwd p = Inr ?q"
  proof (rule resolve_mono [OF ws(3)])
    fix x
    assume "sm x = Some Dir"
    then show "s1 x = Some Dir"
      using le kind_le_dir by blast
  qed
  moreover have "s1 ?q = Some (File c1)"
    using ws(1) by simp
  ultimately have "write_file cwd p c2 s1 = (None, s1(?q \<mapsto> File c2))"
    by (simp add: write_file_def)
  then show ?thesis
    using mk1 t' by (simp add: and_then_def)
qed

section \<open>Idempotence of a generation run\<close>

text \<open>
  C6. Generation is deterministic and idempotent: the run is a function of the
  configuration, the output root and the state of the file system, and a second run with
  the same configuration and output root, started in the state that a successful first
  run left, succeeds and leaves that state as it is. Every output file therefore has the
  same bytes after the second run as after the first.
\<close>

theorem main_create_idempotent:
  assumes "main_create cwd config output_input fs = (None, fs')"
  shows "main_create cwd config output_input fs' = (None, fs')"
  using main_create_replays assms by (rule replays_idempotent)

theorem main_create_idempotent_witness:
  "main_create [''home''] example_config [] example_fs =
     (None, snd (main_create [''home''] example_config [] example_fs)) \<and>
   main_create [''home''] example_config [] (snd (main_create [''home''] example_config [] example_fs)) =
     (None, snd (main_create [''home''] example_config [] example_fs))"
proof -
  have "fst (main_create [''home''] example_config [] example_fs) = None"
    by code_simp
  then have run: "main_create [''home''] example_config [] example_fs =
      (None, snd (main_create [''home''] example_config [] example_fs))"
    by (simp add: prod_eq_iff)
  from run main_create_idempotent [OF run] show ?thesis
    by (rule conjI)
qed

section \<open>The structure builder\<close>

text \<open>
  C7. When \<open>create_project_structure\<close> returns for an output root and the fixed
  \<open>PROJECT_STRUCTURE\<close>, the directories \<^verbatim>\<open>public\<close>, \<^verbatim>\<open>src\<close> and the seven subdirectories of
  \<^verbatim>\<open>src\<close> exist under the root. It creates directories only: every location keeps what
  it held, or held nothing and is now a directory, so no file is written. It is
  idempotent with create-if-missing semantics: started in any state in which some of the
  directories it creates are already there (each location as before the call or as
  after it), it succeeds again and ends in the same state.
\<close>

theorem create_project_structure_ensures:
  assumes "create_project_structure cwd base_dir PROJECT_STRUCTURE fs = (None, fs')"
  shows "(\<forall>d \<in> set [[''public''], [''src''], [''src'', ''components''], [''src'', ''layouts''],
                      [''src'', ''pages''], [''src'', ''services''], [''src'', ''themes''],
                      [''src'', ''utils''], [''src'', ''mockData'']].
            fs' (location_of cwd base_dir @ d) = Some Dir) \<and>
         (\<forall>p. fs' p = fs p \<or> (fs p = None \<and> fs' p = Some Dir)) \<and>
         files_of fs' = files_of fs \<and>
         (\<forall>t. between fs fs' t \<longrightarrow>
            create_project_structure cwd base_dir PROJECT_STRUCTURE t = (None, fs'))"
proof -
  let ?R = "location_of cwd base_dir"
  let ?subs = "[''components'', ''layouts'', ''pages'', ''services'', ''themes'', ''utils'',
                ''mockData'']"
  have pub: "(''public'', []) \<in> set PROJECT_STRUCTURE"
    and src: "(''src'', ?subs) \<in> set PROJECT_STRUCTURE"
    by (simp_all add: PROJECT_STRUCTURE_def)
  have 1: "fs' (?R @ [''public'']) = Some Dir"
    by (rule create_project_structure_dirs(1) [OF assms pub]) (simp_all add: plain_name_def)
  have 2: "fs' (?R @ [''src'']) = Some Dir"
    by (rule create_project_structure_dirs(1) [OF assms src]) (simp_all add: plain_name_def)
  have 3: "\<forall>sub \<in> set ?subs. fs' (?R @ [''src'', sub]) = Some Dir"
    by (rule create_project_structure_dirs(2) [OF assms src]) (simp_all add: plain_name_def)
  have frame: "fs' p = fs p \<or> (fs p = None \<and> fs' p = Some Dir)" for p
    using create_project_structure_dirs_only assms unfolding dirs_only_def by blast
  have files: "files_of fs' = files_of fs"
  proof -
    have "p \<in> files_of fs' \<longleftrightarrow> p \<in> files_of fs" for p
      using frame [of p] unfolding files_of_def by (cases "fs p") auto
    then show ?thesis by blast
  qed
  have again: "create_project_structure cwd base_dir PROJECT_STRUCTURE t = (None, fs')"
    if "between fs fs' t" for t
    using create_project_structure_replays assms that by (rule replays_between)
  from 1 2 3 have "\<forall>d \<in> set [[''public''], [''src''], [''src'', ''components''],
        [''src'', ''layouts''], [''src'', ''pages''], [''src'', ''services''],
        [''src'', ''themes''], [''src'', ''utils''], [''src'', ''mockData'']].
      fs' (?R @ d) = Some Dir"
    by simp
  then show ?thesis
    using frame files again by blast
qed

theorem create_project_structure_ensures_witness:
  "create_project_structure [''home''] ''./output'' PROJECT_STRUCTURE example_fs =
     (None, snd (create_project_structure [''home''] ''./output'' PROJECT_STRUCTURE example_fs)) \<and>
   snd (create_project_structure [''home''] ''./output'' PROJECT_STRUCTURE example_fs)
     (location_of [''home''] ''./output'' @ [''src'', ''mockData'']) = Some Dir \<and>
   files_of (snd (create_project_structure [''home''] ''./output'' PROJECT_STRUCTURE example_fs)) =
     files_of example_fs \<and>
   create_project_structure [''home''] ''./output'' PROJECT_STRUCTURE
     (snd (create_project_structure [''home''] ''./output'' PROJECT_STRUCTURE example_fs)) =
     (None, snd (create_project_structure [''home''] ''./output'' PROJECT_STRUCTURE example_fs))"
proof -
  let ?fs' = "snd (create_project_structure [''home''] ''./output'' PROJECT_STRUCTURE example_fs)"
  have "fst (create_project_structure [''home''] ''./output'' PROJECT_STRUCTURE example_fs) = None"
    by code_simp
  then have run: "create_project_structure [''home''] ''./output'' PROJECT_STRUCTURE example_fs =
      (None, ?fs')"
    by (simp add: prod_eq_iff)
  have b: "between example_fs ?fs' ?fs'"
    by (simp add: between_def)
  from create_project_structure_ensures [OF run] b run show ?thesis
    by simp
qed

section \<open>The files of a run\<close>

text \<open>
  C5. For a configuration whose components are \<open>N\<close> mappings with pairwise distinct string
  ids that contain no slash, a generation run that returns has written exactly \<open>N\<close> files
  under \<^verbatim>\<open>src/components\<close>, one per id, and the four fixed files \<^verbatim>\<open>package.json\<close>,
  \<^verbatim>\<open>src/index.js\<close>, \<^verbatim>\<open>src/App.js\<close> and \<^verbatim>\<open>src/themes/theme.js\<close>: the regular files after
  the run are those before it together with these \<open>N + 4\<close> locations.
\<close>

theorem main_create_file_count:
  assumes "main_create cwd (PDict m) output_input fs = (None, fs')"
    and "map_of m ''components'' = Some (PList cs)"
    and "list_all2 (\<lambda>c i. \<exists>d. c = PDict d \<and> map_of d ''id'' = Some (PStr i)) cs ids"
    and "\<forall>i \<in> set ids. CHR ''/'' \<notin> set i"
    and "distinct ids"
    and "R = location_of cwd (if output_input = [] then ''./output'' else output_input)"
  shows "files_of fs' =
           files_of fs \<union>
           ({R @ [''package.json''], R @ [''src'', ''index.js''], R @ [''src'', ''App.js''],
             R @ [''src'', ''themes'', ''theme.js'']} \<union>
            (\<lambda>i. R @ [''src'', ''components'', i @ ''.js'']) ` set ids) \<and>
         card ((\<lambda>i. R @ [''src'', ''components'', i @ ''.js'']) ` set ids) = length cs \<and>
         card ({R @ [''package.json''], R @ [''src'', ''index.js''], R @ [''src'', ''App.js''],
                R @ [''src'', ''themes'', ''theme.js'']} \<union>
               (\<lambda>i. R @ [''src'', ''components'', i @ ''.js'']) ` set ids) = length cs + 4"
proof -
  let ?cl = "\<lambda>i. R @ [''src'', ''components'', i @ ''.js'']"
  let ?fixed = "{R @ [''package.json''], R @ [''src'', ''index.js''], R @ [''src'', ''App.js''],
      R @ [''src'', ''themes'', ''theme.js'']}"
  from main_create_effect [OF assms(1,2,3,4,6)] obtain W where eff: "effect fs W fs'"
    and dom: "dom W = ?fixed \<union> ?cl ` set ids"
    by blast
  have files: "files_of fs' = files_of fs \<union> (?fixed \<union> ?cl ` set ids)"
    using effect_files [OF eff] dom by simp
  have len: "length ids = length cs"
    using assms(3) by (simp add: list_all2_lengthD)
  have "inj_on ?cl (set ids)"
    by (rule inj_onI) simp
  then have "card (?cl ` set ids) = card (set ids)"
    by (rule card_image)
  then have cc: "card (?cl ` set ids) = length cs"
    using assms(5) len by (simp add: distinct_card)
  have cf: "card ?fixed = 4"
    by simp
  have disj: "?fixed \<inter> ?cl ` set ids = {}"
    by auto
  have "card (?fixed \<union> ?cl ` set ids) = card ?fixed + card (?cl ` set ids)"
    by (rule card_Un_disjoint) (simp_all add: disj)
  then have "card (?fixed \<union> ?cl ` set ids) = length cs + 4"
    using cc cf by simp
  then show ?thesis
    using files cc by blast
qed

theorem main_create_file_count_witness:
  "main_create [''home''] example_config [] example_fs =
     (None, snd (main_create [''home''] example_config [] example_fs)) \<and>
   files_of (snd (main_create [''home''] example_config [] example_fs)) =
     files_of example_fs \<union>
     ({[''home'', ''output'', ''package.json''], [''home'', ''output'', ''src'', ''index.js''],
       [''home'', ''output'', ''src'', ''App.js''],
       [''home'', ''output'', ''src'', ''themes'', ''theme.js'']} \<union>
      {[''home'', ''output'', ''src'', ''components'', ''chart.js'']})"
proof -
  let ?m = "[(''components'', PList [PDict [(''id'', PStr ''chart'')]]),
             (''theme'', PDict [(''mode'', PStr ''dark'')])]"
  let ?fs' = "snd (main_create [''home''] example_config [] example_fs)"
  have cfg: "example_config = PDict ?m"
    by (simp add: example_config_def)
  have "fst (main_create [''home''] example_config [] example_fs) = None"
    by code_simp
  then have run: "main_create [''home''] example_config [] example_fs = (None, ?fs')"
    by (simp add: prod_eq_iff)
  have R: "[''home'', ''output''] = location_of [''home''] (if [] = [] then ''./output'' else [])"
    by (simp add: location_of_def start_of_def)
  have c: "map_of ?m ''components'' = Some (PList [PDict [(''id'', PStr ''chart'')]])"
    by simp
  have l: "list_all2 (\<lambda>c i. \<exists>d. c = PDict d \<and> map_of d ''id'' = Some (PStr i))
      [PDict [(''id'', PStr ''chart'')]] [''chart'']"
    by simp
  have p: "\<forall>i \<in> set [''chart'']. CHR ''/'' \<notin> set i"
    by simp
  have d: "distinct [''chart'']"
    by simp
  from main_create_file_count [OF run [unfolded cfg] c l p d R]
  have "files_of ?fs' =
     files_of example_fs \<union>
     ({[''home'', ''output'', ''package.json''], [''home'', ''output'', ''src'', ''index.js''],
       [''home'', ''output'', ''src'', ''App.js''],
       [''home'', ''output'', ''src'', ''themes'', ''theme.js'']} \<union>
      {[''home'', ''output'', ''src'', ''components'', ''chart.js'']})"
    by (simp add: cfg)
  with run show ?thesis
    by (rule conjI)
qed

section \<open>The fixed files\<close>



section \<open>The theme generator\<close>



section \<open>The component generator\<close>




section \<open>Components that share an id\<close>

text \<open>
  C2 (as amended). The program has no conflict detection. When a component has been
  generated, generating a second component with the same id raises nothing: it writes the
  same file again, and the file then holds the content of the second component. The loop
  of \<^verbatim>\<open>main\<close> over the two components ends without an exception.
\<close>

theorem duplicate_id_overwrites:
  assumes "generate_component cwd (PDict c1) output_dir fs = (None, fs1)"
    and "map_of c1 ''id'' = Some (PStr i)"
    and "map_of c2 ''id'' = Some (PStr i)"
    and "map_of c2 ''options'' = None \<or> (\<exists>opts. map_of c2 ''options'' = Some (PDict opts))"
  shows "generate_component cwd (PDict c2) output_dir fs1 =
           (None, fs1(location_of cwd (os_path_join output_dir [''src'', ''components'', i @ ''.js'']) \<mapsto>
              File (rendered_component (capitalize i) (py_str (component_title c2))))) \<and>
         for_each (\<lambda>component. generate_component cwd component output_dir) [PDict c1, PDict c2] fs =
           (None, fs1(location_of cwd (os_path_join output_dir [''src'', ''components'', i @ ''.js'']) \<mapsto>
              File (rendered_component (capitalize i) (py_str (component_title c2)))))"
proof -
  have path: "component_file_path output_dir (PStr i) =
      os_path_join output_dir [''src'', ''components'', i @ ''.js'']"
    by (simp add: component_file_path_def py_str_PStr)
  from generate_component_run [OF assms(1)] assms(2)
  have "and_then (os_makedirs cwd (os_path_dirname (component_file_path output_dir (PStr i))))
      (write_file cwd (component_file_path output_dir (PStr i))
         (rendered_component (capitalize i) (py_str (component_title c1)))) fs = (None, fs1)"
    by auto
  from makedirs_write_again [OF this]
  have 2: "generate_component cwd (PDict c2) output_dir fs1 =
      (None, fs1(location_of cwd (component_file_path output_dir (PStr i)) \<mapsto>
         File (rendered_component (capitalize i) (py_str (component_title c2)))))"
    by (simp only: generate_component_valid [OF assms(3,4)])
  then have "for_each (\<lambda>component. generate_component cwd component output_dir)
      [PDict c1, PDict c2] fs =
      (None, fs1(location_of cwd (component_file_path output_dir (PStr i)) \<mapsto>
         File (rendered_component (capitalize i) (py_str (component_title c2)))))"
    using assms(1) by simp
  with 2 show ?thesis
    by (simp only: path)
qed

theorem duplicate_id_overwrites_witness:
  "generate_component [''home'']
     (PDict [(''id'', PStr ''a''), (''options'', PDict [(''title'', PStr ''One'')])])
     ''./output'' example_fs =
     (None, snd (generate_component [''home'']
        (PDict [(''id'', PStr ''a''), (''options'', PDict [(''title'', PStr ''One'')])])
        ''./output'' example_fs)) \<and>
   fst (generate_component [''home'']
     (PDict [(''id'', PStr ''a''), (''options'', PDict [(''title'', PStr ''Two'')])])
     ''./output''
     (snd (generate_component [''home'']
        (PDict [(''id'', PStr ''a''), (''options'', PDict [(''title'', PStr ''One'')])])
        ''./output'' example_fs))) = None"
proof -
  let ?c1 = "[(''id'', PStr ''a''), (''options'', PDict [(''title'', PStr ''One'')])]"
  let ?c2 = "[(''id'', PStr ''a''), (''options'', PDict [(''title'', PStr ''Two'')])]"
  let ?F = "snd (generate_component [''home''] (PDict ?c1) ''./output'' example_fs)"
  have "fst (generate_component [''home''] (PDict ?c1) ''./output'' example_fs) = None"
    by code_simp
  then have run: "generate_component [''home''] (PDict ?c1) ''./output'' example_fs = (None, ?F)"
    by (simp add: prod_eq_iff)
  have 1: "map_of ?c1 ''id'' = Some (PStr ''a'')" and 2: "map_of ?c2 ''id'' = Some (PStr ''a'')"
    and 3: "map_of ?c2 ''options'' = None \<or> (\<exists>opts. map_of ?c2 ''options'' = Some (PDict opts))"
    by simp_all
  from duplicate_id_overwrites [OF run 1 2 3]
  have "fst (generate_component [''home''] (PDict ?c2) ''./output'' ?F) = None"
    by (simp only: fst_conv)
  with run show ?thesis
    by (rule conjI)
qed

text \<open>
  C2 as stated fails: a run over two components with the id \<^verbatim>\<open>a\<close> and the titles
  \<^verbatim>\<open>One\<close> and \<^verbatim>\<open>Two\<close> reports no error and leaves the second component in
  \<^verbatim>\<open>src/components/a.js\<close>.
\<close>

theorem duplicate_id_counterexample:
  "fst (main_create [''home'']
     (PDict [(''components'', PList
        [PDict [(''id'', PStr ''a''), (''options'', PDict [(''title'', PStr ''One'')])],
         PDict [(''id'', PStr ''a''), (''options'', PDict [(''title'', PStr ''Two'')])]])])
     [] example_fs) = None \<and>
   snd (main_create [''home'']
     (PDict [(''components'', PList
        [PDict [(''id'', PStr ''a''), (''options'', PDict [(''title'', PStr ''One'')])],
         PDict [(''id'', PStr ''a''), (''options'', PDict [(''title'', PStr ''Two'')])]])])
     [] example_fs) [''home'', ''output'', ''src'', ''components'', ''a.js''] =
     Some (File (rendered_component ''A'' ''Two''))"
  by code_simp

section \<open>A component without an id\<close>

lemma for_each_append:
  "for_each body (xs @ ys) s =
     (case for_each body xs s of
        (None, s') \<Rightarrow> for_each body ys s'
      | (Some e, s') \<Rightarrow> (Some e, s'))"
  by (induction xs arbitrary: s) (auto split: prod.splits option.splits)

lemma generate_component_no_id:
  "map_of c ''id'' = None \<Longrightarrow> generate_component cwd (PDict c) output_dir s = (Some KeyError, s)"
  by (simp add: generate_component_def eval_then_def raise_def)

lemma grows_file:
  assumes "grows f" and "f s = (r, s')" and "p \<in> files_of s"
  shows "p \<in> files_of s'"
  using assms unfolding grows_def kind_le_def by blast

text \<open>
  C9 (as amended). The program does not validate the configuration before it writes. A
  component without \<^verbatim>\<open>id\<close> raises \<open>KeyError\<close> when the loop over the components reaches
  it: by then the directory tree, \<^verbatim>\<open>src/index.js\<close>, \<^verbatim>\<open>src/App.js\<close>, \<^verbatim>\<open>package.json\<close> and the
  files of the components before it have been written, and they stay in place.
\<close>

theorem missing_id_detected_late:
  assumes "map_of m ''components'' = Some (PList (pre @ PDict c # post))"
    and "map_of c ''id'' = None"
    and "output_dir = (if output_input = [] then ''./output'' else output_input)"
    and "and_then (create_project_structure cwd output_dir PROJECT_STRUCTURE)
           (and_then (generate_index_js cwd output_dir)
           (and_then (generate_app_js cwd output_dir)
           (and_then (generate_package_json cwd output_dir)
              (for_each (\<lambda>component. generate_component cwd component output_dir) pre)))) fs =
         (None, fs')"
  shows "main_create cwd (PDict m) output_input fs = (Some KeyError, fs') \<and>
         fs' (location_of cwd output_dir @ [''src'']) = Some Dir \<and>
         {location_of cwd output_dir @ [''src'', ''index.js''],
          location_of cwd output_dir @ [''src'', ''App.js''],
          location_of cwd output_dir @ [''package.json'']} \<subseteq> files_of fs'"
proof -
  let ?gen = "\<lambda>component. generate_component cwd component output_dir"
  from assms(4) obtain s1 s2 s3 s4 where
    1: "create_project_structure cwd output_dir PROJECT_STRUCTURE fs = (None, s1)" and
    2: "generate_index_js cwd output_dir s1 = (None, s2)" and
    3: "generate_app_js cwd output_dir s2 = (None, s3)" and
    4: "generate_package_json cwd output_dir s3 = (None, s4)" and
    5: "for_each ?gen pre s4 = (None, fs')"
    unfolding and_then_success by blast
  have loop: "for_each ?gen (pre @ PDict c # post) s4 = (Some KeyError, fs')"
    by (simp add: for_each_append 5 generate_component_no_id [OF assms(2)])
  have run: "main_create cwd (PDict m) output_input fs = (Some KeyError, fs')"
    unfolding main_create_unfold [OF assms(1)] Let_def assms(3) [symmetric]
    by (simp add: and_then_def 1 2 3 4 loop)
  have g5: "grows (for_each ?gen pre)"
    by (rule for_each_grows) (rule generate_component_grows)
  have "(''src'', [''components'', ''layouts'', ''pages'', ''services'', ''themes'', ''utils'',
      ''mockData'']) \<in> set PROJECT_STRUCTURE"
    by (simp add: PROJECT_STRUCTURE_def)
  from create_project_structure_dirs(1) [OF 1 this]
  have "s1 (location_of cwd output_dir @ [''src'']) = Some Dir"
    by (simp add: plain_name_def)
  then have "s2 (location_of cwd output_dir @ [''src'']) = Some Dir"
    using generate_index_js_grows 2 unfolding grows_def kind_le_def by blast
  then have "s3 (location_of cwd output_dir @ [''src'']) = Some Dir"
    using generate_app_js_grows 3 unfolding grows_def kind_le_def by blast
  then have "s4 (location_of cwd output_dir @ [''src'']) = Some Dir"
    using generate_package_json_grows 4 unfolding grows_def kind_le_def by blast
  then have dir: "fs' (location_of cwd output_dir @ [''src'']) = Some Dir"
    using g5 5 unfolding grows_def kind_le_def by blast
  have "location_of cwd output_dir @ [''src'', ''index.js''] \<in> files_of s2"
    using effect_files [OF generate_index_js_effect [OF 2]] by simp
  then have "location_of cwd output_dir @ [''src'', ''index.js''] \<in> files_of s3"
    using grows_file [OF generate_app_js_grows 3] by blast
  then have "location_of cwd output_dir @ [''src'', ''index.js''] \<in> files_of s4"
    using grows_file [OF generate_package_json_grows 4] by blast
  then have a: "location_of cwd output_dir @ [''src'', ''index.js''] \<in> files_of fs'"
    using grows_file [OF g5 5] by blast
  have "location_of cwd output_dir @ [''src'', ''App.js''] \<in> files_of s3"
    using effect_files [OF generate_app_js_effect [OF 3]] by simp
  then have "location_of cwd output_dir @ [''src'', ''App.js''] \<in> files_of s4"
    using grows_file [OF generate_package_json_grows 4] by blast
  then have b: "location_of cwd output_dir @ [''src'', ''App.js''] \<in> files_of fs'"
    using grows_file [OF g5 5] by blast
  have "location_of cwd output_dir @ [''package.json''] \<in> files_of s4"
    using effect_files [OF generate_package_json_effect [OF 4]] by simp
  then have c: "location_of cwd output_dir @ [''package.json''] \<in> files_of fs'"
    using grows_file [OF g5 5] by blast
  show ?thesis
    using run dir a b c by blast
qed

theorem missing_id_detected_late_witness:
  "fst (and_then (create_project_structure [''home''] ''./output'' PROJECT_STRUCTURE)
          (and_then (generate_index_js [''home''] ''./output'')
          (and_then (generate_app_js [''home''] ''./output'')
          (and_then (generate_package_json [''home''] ''./output'')
             (for_each (\<lambda>component. generate_component [''home''] component ''./output'')
                [PDict [(''id'', PStr ''chart'')]])))) example_fs) = None \<and>
   main_create [''home'']
     (PDict [(''components'', PList [PDict [(''id'', PStr ''chart'')],
                                      PDict [(''type'', PStr ''table'')]])])
     [] example_fs =
     (Some KeyError,
      snd (and_then (create_project_structure [''home''] ''./output'' PROJECT_STRUCTURE)
          (and_then (generate_index_js [''home''] ''./output'')
          (and_then (generate_app_js [''home''] ''./output'')
          (and_then (generate_package_json [''home''] ''./output'')
             (for_each (\<lambda>component. generate_component [''home''] component ''./output'')
                [PDict [(''id'', PStr ''chart'')]])))) example_fs))"
proof -
  let ?m = "[(''components'', PList [PDict [(''id'', PStr ''chart'')],
                                     PDict [(''type'', PStr ''table'')]])]"
  let ?chain = "and_then (create_project_structure [''home''] ''./output'' PROJECT_STRUCTURE)
          (and_then (generate_index_js [''home''] ''./output'')
          (and_then (generate_app_js [''home''] ''./output'')
          (and_then (generate_package_json [''home''] ''./output'')
             (for_each (\<lambda>component. generate_component [''home''] component ''./output'')
                [PDict [(''id'', PStr ''chart'')]]))))"
  have ok: "fst (?chain example_fs) = None"
    by code_simp
  then have run: "?chain example_fs = (None, snd (?chain example_fs))"
    by (simp add: prod_eq_iff)
  have 1: "map_of ?m ''components'' =
      Some (PList ([PDict [(''id'', PStr ''chart'')]] @ PDict [(''type'', PStr ''table'')] # []))"
    by simp
  have 2: "map_of [(''type'', PStr ''table'')] ''id'' = None"
    by simp
  have 3: "''./output'' = (if [] = [] then ''./output'' else [])"
    by simp
  from missing_id_detected_late [OF 1 2 3 run]
  have "main_create [''home''] (PDict ?m) [] example_fs = (Some KeyError, snd (?chain example_fs))"
    by (rule conjunct1)
  with ok show ?thesis
    by (rule conjI)
qed

text \<open>
  C9 as stated fails: for a configuration whose only component has no \<^verbatim>\<open>id\<close>, the run
  ends with \<open>KeyError\<close>, and the directory \<^verbatim>\<open>src\<close> and the file \<^verbatim>\<open>package.json\<close>, which
  did not exist before, exist afterwards.
\<close>

theorem missing_id_counterexample:
  "fst (main_create [''home''] (PDict [(''components'', PList [PDict [(''type'', PStr ''table'')]])])
     [] example_fs) = Some KeyError \<and>
   example_fs [''home'', ''output'', ''src''] = None \<and>
   example_fs [''home'', ''output'', ''package.json''] = None \<and>
   snd (main_create [''home''] (PDict [(''components'', PList [PDict [(''type'', PStr ''table'')]])])
     [] example_fs) [''home'', ''output'', ''src''] = Some Dir \<and>
   snd (main_create [''home''] (PDict [(''components'', PList [PDict [(''type'', PStr ''table'')]])])
     [] example_fs) [''home'', ''output'', ''package.json''] = Some (File package_json_content)"
  by code_simp

section \<open>Component ids that leave the components directory\<close>

text \<open>
  C10. The component id goes into the file path as it is. With the id \<^verbatim>\<open>/tmp/x\<close> the path
  is \<^verbatim>\<open>/tmp/x.js\<close> for every output root, which is outside \<^verbatim>\<open>src/components\<close> of any root.
  With the id \<^verbatim>\<open>../../../x\<close> and the output root \<^verbatim>\<open>./output\<close> in \<^verbatim>\<open>/home\<close>, the generator
  succeeds and writes \<^verbatim>\<open>/home/x.js\<close>, outside the output root \<^verbatim>\<open>/home/output\<close>.
\<close>

theorem component_path_escapes:
  "(\<forall>output_dir cwd.
      component_file_path output_dir (PStr ''/tmp/x'') = ''/tmp/x.js'' \<and>
      location_of cwd (component_file_path output_dir (PStr ''/tmp/x'')) = [''tmp'', ''x.js''] \<and>
      \<not> prefix (location_of cwd output_dir @ [''src'', ''components''])
          (location_of cwd (component_file_path output_dir (PStr ''/tmp/x'')))) \<and>
   location_of [''home''] ''./output'' = [''home'', ''output''] \<and>
   location_of [''home''] (component_file_path ''./output'' (PStr ''../../../x'')) = [''home'', ''x.js''] \<and>
   \<not> prefix (location_of [''home''] ''./output'')
       (location_of [''home''] (component_file_path ''./output'' (PStr ''../../../x''))) \<and>
   fst (generate_component [''home''] (PDict [(''id'', PStr ''../../../x'')]) ''./output''
     example_fs) = None \<and>
   snd (generate_component [''home''] (PDict [(''id'', PStr ''../../../x'')]) ''./output''
     example_fs) [''home'', ''x.js''] = Some (File (rendered_component ''../../../x'' ''Component''))"
proof -
  have p: "component_file_path output_dir (PStr ''/tmp/x'') = ''/tmp/x.js''" for output_dir
    by (simp add: component_file_path_def os_path_join_def join_step_def py_str_PStr)
  have l: "location_of cwd ''/tmp/x.js'' = [''tmp'', ''x.js'']" for cwd
    by (simp add: location_of_def start_of_def)
  have n: "\<not> prefix (R @ [''src'', ''components'']) [''tmp'', ''x.js'']" for R :: location
  proof
    assume "prefix (R @ [''src'', ''components'']) [''tmp'', ''x.js'']"
    then obtain zs where z: "[''tmp'', ''x.js''] = (R @ [''src'', ''components'']) @ zs"
      by (auto simp: prefix_def)
    then have "length (R @ [''src'', ''components''] @ zs) = 2"
      by (metis append_assoc length_Cons list.size(3) numeral_2_eq_2)
    then have "R = []" and "zs = []"
      by simp_all
    then show False
      using z by simp
  qed
  have a: "location_of [''home''] ''./output'' = [''home'', ''output'']"
    by code_simp
  have b: "location_of [''home''] (component_file_path ''./output'' (PStr ''../../../x'')) =
      [''home'', ''x.js'']"
    by code_simp
  have c: "\<not> prefix [''home'', ''output''] [''home'', ''x.js'']"
    by simp
  have d: "fst (generate_component [''home''] (PDict [(''id'', PStr ''../../../x'')]) ''./output''
      example_fs) = None"
    by code_simp
  have e: "snd (generate_component [''home''] (PDict [(''id'', PStr ''../../../x'')]) ''./output''
      example_fs) [''home'', ''x.js''] = Some (File (rendered_component ''../../../x'' ''Component''))"
    by code_simp
  show ?thesis
    unfolding p l a b using n c d e by blast
qed

section \<open>Purging a project\<close>

text \<open>
  C4. The purge operation refuses an empty path, the file system root and a proper
  ancestor of the working directory with \<open>UnsafePurgeError\<close>, and reports a path that does
  not exist or is not a directory as \<open>FilesystemError\<close>; whenever it reports an error the
  state is unchanged, so nothing is deleted before the checks. For a directory that
  passes the checks it removes the whole tree, the root of the tree included, and
  nothing else.
\<close>

theorem purgeProject_safe:
  "purgeProject cwd [] fs = (Some UnsafePurgeError, fs) \<and>
   (targetRoot \<noteq> [] \<and> resolve fs cwd targetRoot = Inr q \<and> fs q = Some Dir \<and>
    (q = [] \<or> strict_prefix q cwd) \<longrightarrow>
      purgeProject cwd targetRoot fs = (Some UnsafePurgeError, fs)) \<and>
   (targetRoot \<noteq> [] \<and>
    (resolve fs cwd targetRoot = Inl e \<or> resolve fs cwd targetRoot = Inr q \<and> fs q = None) \<longrightarrow>
      purgeProject cwd targetRoot fs = (Some FilesystemError, fs)) \<and>
   (targetRoot \<noteq> [] \<and> resolve fs cwd targetRoot = Inr q \<and> fs q = Some (File x) \<longrightarrow>
      purgeProject cwd targetRoot fs = (Some FilesystemError, fs)) \<and>
   (purgeProject cwd targetRoot fs = (Some err, fs') \<longrightarrow> fs' = fs) \<and>
   (targetRoot \<noteq> [] \<and> resolve fs cwd targetRoot = Inr q \<and> fs q = Some Dir \<and>
    q \<noteq> [] \<and> \<not> strict_prefix q cwd \<longrightarrow>
      (\<exists>fs''. purgeProject cwd targetRoot fs = (None, fs'') \<and> fs'' q = None \<and>
         (\<forall>p. fs'' p = (if prefix q p then None else fs p))))"
proof -
  have 1: "purgeProject cwd [] fs = (Some UnsafePurgeError, fs)"
    by (simp add: purgeProject_def)
  have 2: "purgeProject cwd targetRoot fs = (Some UnsafePurgeError, fs)"
    if "targetRoot \<noteq> []" "resolve fs cwd targetRoot = Inr q" "fs q = Some Dir"
      "q = [] \<or> strict_prefix q cwd"
    using that by (auto simp: purgeProject_def)
  have 3: "purgeProject cwd targetRoot fs = (Some FilesystemError, fs)"
    if "targetRoot \<noteq> []"
      "resolve fs cwd targetRoot = Inl e \<or> resolve fs cwd targetRoot = Inr q \<and> fs q = None"
    using that by (auto simp: purgeProject_def)
  have 4: "purgeProject cwd targetRoot fs = (Some FilesystemError, fs)"
    if "targetRoot \<noteq> []" "resolve fs cwd targetRoot = Inr q" "fs q = Some (File x)"
    using that by (simp add: purgeProject_def)
  have 5: "fs' = fs" if "purgeProject cwd targetRoot fs = (Some err, fs')"
    using that
    by (auto simp: purgeProject_def split: if_splits sum.splits option.splits node.splits)
  have 6: "\<exists>fs''. purgeProject cwd targetRoot fs = (None, fs'') \<and> fs'' q = None \<and>
      (\<forall>p. fs'' p = (if prefix q p then None else fs p))"
    if "targetRoot \<noteq> []" "resolve fs cwd targetRoot = Inr q" "fs q = Some Dir"
      "q \<noteq> []" "\<not> strict_prefix q cwd"
    using that by (simp add: purgeProject_def)
  show ?thesis
    using 1 2 3 4 5 6 by blast
qed

theorem purgeProject_safe_witness:
  "fst (purgeProject [''home''] ''output''
     (snd (main_create [''home''] example_config [] example_fs))) = None \<and>
   snd (purgeProject [''home''] ''output''
     (snd (main_create [''home''] example_config [] example_fs))) [''home'', ''output''] = None \<and>
   snd (purgeProject [''home''] ''output''
     (snd (main_create [''home''] example_config [] example_fs)))
     [''home'', ''output'', ''src'', ''index.js''] = None \<and>
   snd (purgeProject [''home''] ''output''
     (snd (main_create [''home''] example_config [] example_fs))) [''home''] = Some Dir \<and>
   purgeProject [''home''] ''nothere'' (snd (main_create [''home''] example_config [] example_fs)) =
     (Some FilesystemError, snd (main_create [''home''] example_config [] example_fs)) \<and>
   purgeProject [''home''] ''output/package.json''
     (snd (main_create [''home''] example_config [] example_fs)) =
     (Some FilesystemError, snd (main_create [''home''] example_config [] example_fs)) \<and>
   purgeProject [''home''] ''/'' (snd (main_create [''home''] example_config [] example_fs)) =
     (Some UnsafePurgeError, snd (main_create [''home''] example_config [] example_fs)) \<and>
   purgeProject [''home'', ''output''] ''..''
     (snd (main_create [''home''] example_config [] example_fs)) =
     (Some UnsafePurgeError, snd (main_create [''home''] example_config [] example_fs))"
proof -
  let ?F = "snd (main_create [''home''] example_config [] example_fs)"
  have r1: "resolve ?F [''home''] ''output'' = Inr [''home'', ''output'']"
    and d1: "?F [''home'', ''output''] = Some Dir"
    and h: "?F [''home''] = Some Dir"
    and r2: "resolve ?F [''home''] ''nothere'' = Inr [''home'', ''nothere'']"
    and d2: "?F [''home'', ''nothere''] = None"
    and r3: "resolve ?F [''home''] ''output/package.json'' = Inr [''home'', ''output'', ''package.json'']"
    and d3: "?F [''home'', ''output'', ''package.json''] = Some (File package_json_content)"
    and r4: "resolve ?F [''home''] ''/'' = Inr []"
    and d4: "?F [] = Some Dir"
    and r5: "resolve ?F [''home'', ''output''] ''..'' = Inr [''home'']"
    by code_simp+
  have s5: "strict_prefix [''home''] [''home'', ''output'']"
    and n1: "\<not> strict_prefix [''home'', ''output''] [''home'']"
    and p1: "prefix [''home'', ''output''] [''home'', ''output'', ''src'', ''index.js'']"
    and p2: "\<not> prefix [''home'', ''output''] [''home'']"
    by (simp_all add: strict_prefix_def)
  have ne: "''output'' \<noteq> []" "[''home'', ''output''] \<noteq> []" "''nothere'' \<noteq> []"
    "''output/package.json'' \<noteq> []" "''/'' \<noteq> []" "''..'' \<noteq> []"
    by simp_all
  from purgeProject_safe [where cwd = "[''home'']" and fs = ?F and targetRoot = "''output''"
      and q = "[''home'', ''output'']"] r1 d1 n1 ne
  obtain fs'' where a: "purgeProject [''home''] ''output'' ?F = (None, fs'')"
    and b: "fs'' [''home'', ''output''] = None"
    and c: "\<forall>p. fs'' p = (if prefix [''home'', ''output''] p then None else ?F p)"
    by blast
  have A: "fst (purgeProject [''home''] ''output'' ?F) = None"
    and B: "snd (purgeProject [''home''] ''output'' ?F) [''home'', ''output''] = None"
    and C: "snd (purgeProject [''home''] ''output'' ?F)
        [''home'', ''output'', ''src'', ''index.js''] = None"
    and D: "snd (purgeProject [''home''] ''output'' ?F) [''home''] = Some Dir"
    unfolding a using b c p1 p2 h by simp_all
  from purgeProject_safe [where cwd = "[''home'']" and fs = ?F and targetRoot = "''nothere''"
      and q = "[''home'', ''nothere'']"] r2 d2 ne
  have E: "purgeProject [''home''] ''nothere'' ?F = (Some FilesystemError, ?F)"
    by blast
  from purgeProject_safe [where cwd = "[''home'']" and fs = ?F
      and targetRoot = "''output/package.json''" and q = "[''home'', ''output'', ''package.json'']"
      and x = package_json_content] r3 d3 ne
  have G: "purgeProject [''home''] ''output/package.json'' ?F = (Some FilesystemError, ?F)"
    by blast
  from purgeProject_safe [where cwd = "[''home'']" and fs = ?F and targetRoot = "''/''"
      and q = "[]"] r4 d4 ne
  have H: "purgeProject [''home''] ''/'' ?F = (Some UnsafePurgeError, ?F)"
    by blast
  from purgeProject_safe [where cwd = "[''home'', ''output'']" and fs = ?F and targetRoot = "''..''"
      and q = "[''home'']"] r5 h s5 ne
  have I: "purgeProject [''home'', ''output''] ''..'' ?F = (Some UnsafePurgeError, ?F)"
    by blast
  show ?thesis
    using A B C D E G H I by blast
qed

end
